theory Spec2Isabelle
  imports Complex_Main "HOL-Library.AList" "HOL-Library.Char_ord" "HOL-Library.List_Lexorder"
    "HOL-Library.Multiset"
begin

section \<open>Strings\<close>

text \<open>
  A source string is a list of code units; the model reads \<^typ>\<open>char\<close> as the code
  units below 256.  \<open>length\<close> is the source's \<open>.length\<close>.  Numbers are
  \<^typ>\<open>real\<close> where the source compares confidences, and \<^typ>\<open>int\<close> where it
  counts characters (on an integer \<open>Math.floor\<close> is the identity); NaN and the
  infinities are outside the model.
\<close>

definition isWhitespace :: "char \<Rightarrow> bool" where
  "isWhitespace c = (of_char c \<in> {9, 10, 11, 12, 13, 32, 160 :: nat})"

definition trim :: "string \<Rightarrow> string" where
  "trim s = rev (dropWhile isWhitespace (rev (dropWhile isWhitespace s)))"

text \<open>
  What the source can throw: a \<open>TypeError\<close> of the runtime or an \<open>Error\<close>, each with
  its message, or a value that is not an \<open>Error\<close> at all.
\<close>

datatype jsError = TypeError string | Error string | NonError

section \<open>Entities\<close>

text \<open>
  \<open>SensitiveEntity\<close> is a structural union in the source: the deduplicator tells the
  variants apart by probing for the fields \<open>text\<close> (here \<open>text'\<close>), \<open>ranges\<close>, \<open>sheetName\<close> and
  \<open>path\<close>.  The record keeps the five base fields and makes the variant fields optional
  (\<open>None\<close>: the property is absent).
\<close>

record SensitiveEntity =
  entity :: string
  reference :: string
  confidence :: real
  rankHex :: string
  category :: string
  text' :: "string option"
  ranges :: "string list option"
  sheetName :: "string option"
  path :: "string option"

text \<open>
  The members of the union, as \<open>types.ts\<close> declares them: the base fields and, of the
  variant fields, \<open>text\<close> alone (\<open>UnstructuredSensitiveEntity\<close>), \<open>ranges\<close> and
  \<open>sheetName\<close> alone (\<open>SpreadsheetSensitiveEntity\<close>), or \<open>path\<close> alone
  (\<open>JsonSensitiveEntity\<close> and \<open>CsvSensitiveEntity\<close>, which declare the same fields).  The
  response schemas of the identifier produce objects of these shapes.
\<close>

datatype variant = UnstructuredVariant | SpreadsheetVariant | StructuredVariant

definition hasVariant :: "variant \<Rightarrow> SensitiveEntity \<Rightarrow> bool" where
  "hasVariant v e =
     (case v of
        UnstructuredVariant \<Rightarrow>
          text' e \<noteq> None \<and> ranges e = None \<and> sheetName e = None \<and> path e = None
      | SpreadsheetVariant \<Rightarrow>
          text' e = None \<and> ranges e \<noteq> None \<and> sheetName e \<noteq> None \<and> path e = None
      | StructuredVariant \<Rightarrow>
          text' e = None \<and> ranges e = None \<and> sheetName e = None \<and> path e \<noteq> None)"

definition isSensitiveEntity :: "SensitiveEntity \<Rightarrow> bool" where
  "isSensitiveEntity e =
     (hasVariant UnstructuredVariant e \<or> hasVariant SpreadsheetVariant e
      \<or> hasVariant StructuredVariant e)"

section \<open>ValidatorTool\<close>

record ValidationConfig =
  minimumConfidence :: real
  enableStrictMode :: bool

definition defaultValidationConfig :: ValidationConfig where
  "defaultValidationConfig = \<lparr>minimumConfidence = 7, enableStrictMode = False\<rparr>"

text \<open>\<open>isValidEntity\<close>: every early \<open>return false\<close> of the source is a branch.\<close>

definition isValidEntity :: "ValidationConfig \<Rightarrow> SensitiveEntity \<Rightarrow> bool" where
  "isValidEntity config e =
     (if confidence e < minimumConfidence config then False
      else if enableStrictMode config then
        (if entity e = [] \<or> length (trim (entity e)) = 0 then False
         else if confidence e < 8 then False
         else True)
      else True)"

definition validateEntities :: "ValidationConfig \<Rightarrow> SensitiveEntity list \<Rightarrow> SensitiveEntity list" where
  "validateEntities config entities = filter (\<lambda>e. isValidEntity config e) entities"

definition validateSingle :: "ValidationConfig \<Rightarrow> SensitiveEntity \<Rightarrow> bool" where
  "validateSingle config e = isValidEntity config e"

text \<open>
  The validator's rule in the specification's words: the confidence reaches the
  configured minimum and, in strict mode, the label is not blank and the confidence
  reaches 8 as well.
\<close>

definition spec_accepts :: "ValidationConfig \<Rightarrow> SensitiveEntity \<Rightarrow> bool" where
  "spec_accepts config e =
     (minimumConfidence config \<le> confidence e \<and>
      (\<not> enableStrictMode config \<or> (trim (entity e) \<noteq> [] \<and> 8 \<le> confidence e)))"

definition effectiveFloor :: "ValidationConfig \<Rightarrow> real" where
  "effectiveFloor config =
     (if enableStrictMode config then max (minimumConfidence config) 8
      else minimumConfidence config)"

text \<open>An entity and a strict configuration for concrete instances.\<close>

definition baseEntity :: SensitiveEntity where
  "baseEntity = \<lparr>entity = ''email'', reference = ''policy1'', confidence = 8,
     rankHex = ''0x1'', category = ''personal'', text' = None, ranges = None,
     sheetName = None, path = None\<rparr>"

definition strictConfig :: ValidationConfig where
  "strictConfig = \<lparr>minimumConfidence = 7, enableStrictMode = True\<rparr>"

section \<open>Chunker: CSV parsing and serialisation\<close>

definition dquote :: char where "dquote = CHR 0x22"
definition comma :: char where "comma = CHR '',''"
definition LF :: char where "LF = CHR 0x0A"
definition CR :: char where "CR = CHR 0x0D"

text \<open>
  \<open>parseCsv\<close>: the \<open>while\<close> loop over \<open>index\<close> is a recursion over the rest of
  the content; \<open>content[index + 1]\<close> is the head of the rest after the current
  character (absent at the end of the content, where the comparison is false).
\<close>

fun parseLoop :: "string \<Rightarrow> string list list \<Rightarrow> string list \<Rightarrow> string \<Rightarrow> bool \<Rightarrow> string list list" where
  "parseLoop [] rows currentRow currentField inQuotes = rows @ [currentRow @ [currentField]]"
| "parseLoop (ch # rest) rows currentRow currentField inQuotes =
     (if ch = dquote then
        (case rest of
           c # rest' \<Rightarrow>
             if inQuotes \<and> c = dquote
             then parseLoop rest' rows currentRow (currentField @ [dquote]) inQuotes
             else parseLoop rest rows currentRow currentField (\<not> inQuotes)
         | [] \<Rightarrow> parseLoop rest rows currentRow currentField (\<not> inQuotes))
      else if \<not> inQuotes \<and> ch = comma then
        parseLoop rest rows (currentRow @ [currentField]) [] inQuotes
      else if \<not> inQuotes \<and> (ch = LF \<or> ch = CR) then
        (case rest of
           c # rest' \<Rightarrow>
             if ch = CR \<and> c = LF
             then parseLoop rest' (rows @ [currentRow @ [currentField]]) [] [] inQuotes
             else parseLoop rest (rows @ [currentRow @ [currentField]]) [] [] inQuotes
         | [] \<Rightarrow> parseLoop rest (rows @ [currentRow @ [currentField]]) [] [] inQuotes)
      else parseLoop rest rows currentRow (currentField @ [ch]) inQuotes)"

definition parseCsv :: "string \<Rightarrow> string list list" where
  "parseCsv content = parseLoop content [] [] [] False"

text \<open>\<open>val.replace(/"/g, '""')\<close>\<close>

definition escapeQuotes :: "string \<Rightarrow> string" where
  "escapeQuotes val = concat (map (\<lambda>c. if c = dquote then [dquote, dquote] else [c]) val)"

definition serializeField :: "string \<Rightarrow> string" where
  "serializeField val =
     (let escaped = escapeQuotes val in
      if comma \<in> set escaped \<or> dquote \<in> set escaped \<or> CR \<in> set escaped \<or> LF \<in> set escaped
      then [dquote] @ escaped @ [dquote]
      else escaped)"

text \<open>\<open>Array.prototype.join\<close> on strings.\<close>

fun join :: "string \<Rightarrow> string list \<Rightarrow> string" where
  "join sep [] = []"
| "join sep [x] = x"
| "join sep (x # y # ys) = x @ sep @ join sep (y # ys)"

definition serializeCsvRow :: "string list \<Rightarrow> string" where
  "serializeCsvRow vals = join [comma] (map serializeField vals)"

section \<open>ChunkerTool\<close>

text \<open>
  The options are integers (\<open>Math.floor\<close> is then the identity); a chunk's fields
  \<open>id\<close>, \<open>text\<close>, \<open>offset\<close> and \<open>analysisType\<close> carry the prefix \<open>c_\<close>.  The variable
  \<open>str\<close> stands for the source's parameter \<open>text\<close>, and \<open>size'\<close> for its \<open>size\<close>.
\<close>

record ChunkingOptions =
  chunkSize :: int
  overlap :: int
  columnChunkSize :: int

definition defaultChunkingOptions :: ChunkingOptions where
  "defaultChunkingOptions = \<lparr>chunkSize = 2000, overlap = 200, columnChunkSize = 4\<rparr>"

record ChunkData =
  c_id :: string
  c_text :: string
  c_offset :: int
  c_analysisType :: string

text \<open>
  \<open>slice(start, end)\<close> of strings and arrays, negative indices counting from the end
  as in the language.
\<close>

definition slice :: "'a list \<Rightarrow> int \<Rightarrow> int \<Rightarrow> 'a list" where
  "slice xs start endIdx =
     (let len = int (length xs);
          from = (if start < 0 then max (len + start) 0 else min start len);
          to = (if endIdx < 0 then max (len + endIdx) 0 else min endIdx len)
      in take (nat (to - from)) (drop (nat from) xs))"

text \<open>
  \<open>generateChunkId\<close> reads the clock: \<open>clock index\<close> is what \<open>Date.now()\<close> returns
  when the chunk of that index gets its id.  \<open>showNat\<close> prints a number in decimal.
\<close>

fun showNat :: "nat \<Rightarrow> string" where
  "showNat n = (if n < 10 then [char_of (48 + n)] else showNat (n div 10) @ [char_of (48 + n mod 10)])"

definition generateChunkId :: "(nat \<Rightarrow> nat) \<Rightarrow> nat \<Rightarrow> string" where
  "generateChunkId clock index = ''chunk_'' @ showNat (clock index) @ ''_'' @ showNat index"

text \<open>
  The \<open>while\<close> loop of \<open>chunkUnstructured\<close>, with \<open>size\<close> and \<open>step\<close> as the loop
  finds them.  Nothing in the loop itself keeps \<open>step\<close> positive, so the loop is a
  partial function: \<open>None\<close> is a run that never returns.
\<close>

partial_function (option) chunkLoop ::
  "(nat \<Rightarrow> nat) \<Rightarrow> string \<Rightarrow> string \<Rightarrow> int \<Rightarrow> int \<Rightarrow> int \<Rightarrow> ChunkData list \<Rightarrow> ChunkData list option" where
  "chunkLoop clock analysisType str size' step start chunks =
     (if start < int (length str) then
        (let endIdx = min (int (length str)) (start + size');
             chunkText = slice str start endIdx;
             chunks' = chunks @ [\<lparr>c_id = generateChunkId clock (length chunks), c_text = chunkText,
                                  c_offset = start, c_analysisType = analysisType\<rparr>]
         in if endIdx \<ge> int (length str) then Some chunks'
            else chunkLoop clock analysisType str size' step (start + step) chunks')
      else Some chunks)"

declare chunkLoop.simps [code]

definition chunkUnstructured ::
  "(nat \<Rightarrow> nat) \<Rightarrow> ChunkingOptions \<Rightarrow> string \<Rightarrow> string \<Rightarrow> ChunkData list option" where
  "chunkUnstructured clock options str analysisType =
     (let size' = max 1 (chunkSize options);
          ov = max 0 (overlap options);
          step = max 1 (size' - ov)
      in if length str = 0
         then Some [\<lparr>c_id = generateChunkId clock 0, c_text = [], c_offset = 0,
                      c_analysisType = analysisType\<rparr>]
         else chunkLoop clock analysisType str size' step 0 [])"

text \<open>
  \<open>chunkByColumn\<close>: the \<open>for\<close> loop advances \<open>i\<close> by \<open>columnChunkSize\<close>, which nothing
  clamps; it is a partial function as well.
\<close>

partial_function (option) columnLoop ::
  "(nat \<Rightarrow> nat) \<Rightarrow> string \<Rightarrow> string list \<Rightarrow> string list list \<Rightarrow> int \<Rightarrow> int \<Rightarrow> ChunkData list
    \<Rightarrow> ChunkData list option" where
  "columnLoop clock analysisType header parsedRows columnChunkSize' i chunks =
     (if i < int (length header) then
        (let columns = slice header i (i + columnChunkSize');
             rows = map (\<lambda>row. serializeCsvRow (slice row i (i + columnChunkSize'))) (drop 1 parsedRows);
             chunkText = join [LF] (serializeCsvRow columns # rows)
         in columnLoop clock analysisType header parsedRows columnChunkSize' (i + columnChunkSize')
              (chunks @ [\<lparr>c_id = generateChunkId clock (length chunks), c_text = chunkText,
                           c_offset = i, c_analysisType = analysisType\<rparr>]))
      else Some chunks)"

declare columnLoop.simps [code]

definition chunkByColumn ::
  "(nat \<Rightarrow> nat) \<Rightarrow> ChunkingOptions \<Rightarrow> string \<Rightarrow> string \<Rightarrow> ChunkData list option" where
  "chunkByColumn clock options csv analysisType =
     (let parsedRows = parseCsv csv;
          header = (case parsedRows of [] \<Rightarrow> [] | h # _ \<Rightarrow> h)
      in if length header = 0 \<or> list_all (\<lambda>h. trim h = []) header
         then chunkUnstructured clock options csv analysisType
         else columnLoop clock analysisType header parsedRows (columnChunkSize options) 0 [])"

text \<open>
  \<open>chunkJson\<close>.  \<open>JSON.parse\<close> and \<open>JSON.stringify\<close> belong to the runtime and are
  parameters (\<open>parse\<close> gives \<open>None\<close> where \<open>JSON.parse\<close> throws).  The shared array
  \<open>chunks\<close> that \<open>recursiveJsonChunk\<close> pushes to is passed and returned.
\<close>

datatype json = JNull | JBool bool | JNumber real | JString string
  | JArray "json list" | JObject "(string \<times> json) list"

record JsonRuntime =
  parse :: "string \<Rightarrow> json option"
  stringify :: "json \<Rightarrow> string"
  stringifyIndented :: "json \<Rightarrow> string"

function (sequential) recursiveJsonChunk ::
    "(nat \<Rightarrow> nat) \<Rightarrow> JsonRuntime \<Rightarrow> ChunkingOptions \<Rightarrow> string \<Rightarrow> json \<Rightarrow> string \<Rightarrow> ChunkData list
      \<Rightarrow> ChunkData list"
  and chunkArrayItems ::
    "(nat \<Rightarrow> nat) \<Rightarrow> JsonRuntime \<Rightarrow> ChunkingOptions \<Rightarrow> string \<Rightarrow> json list \<Rightarrow> nat \<Rightarrow> string
      \<Rightarrow> ChunkData list \<Rightarrow> ChunkData list"
  and chunkObjectEntries ::
    "(nat \<Rightarrow> nat) \<Rightarrow> JsonRuntime \<Rightarrow> ChunkingOptions \<Rightarrow> string \<Rightarrow> (string \<times> json) list \<Rightarrow> string
      \<Rightarrow> ChunkData list \<Rightarrow> ChunkData list" where
  "recursiveJsonChunk clock js options analysisType JNull currentPath chunks = chunks"
| "recursiveJsonChunk clock js options analysisType (JArray items) currentPath chunks =
     chunkArrayItems clock js options analysisType items 0 currentPath chunks"
| "recursiveJsonChunk clock js options analysisType (JObject entries) currentPath chunks =
     (let objStr = stringifyIndented js (JObject entries) in
      if int (length objStr) \<le> chunkSize options
      then chunks @ [\<lparr>c_id = generateChunkId clock (length chunks), c_text = objStr,
                       c_offset = int (length chunks) * chunkSize options,
                       c_analysisType = analysisType\<rparr>]
      else chunkObjectEntries clock js options analysisType entries currentPath chunks)"
| "recursiveJsonChunk clock js options analysisType obj currentPath chunks =
     (let primitiveStr =
            (if currentPath \<noteq> [] then [dquote] @ currentPath @ [dquote] @ '': '' @ stringify js obj
             else stringify js obj)
      in chunks @ [\<lparr>c_id = generateChunkId clock (length chunks), c_text = primitiveStr,
                      c_offset = int (length chunks) * chunkSize options,
                      c_analysisType = analysisType\<rparr>])"
| "chunkArrayItems clock js options analysisType [] index currentPath chunks = chunks"
| "chunkArrayItems clock js options analysisType (item # items) index currentPath chunks =
     (let newPath = (if currentPath \<noteq> [] then currentPath @ ''['' @ showNat index @ '']''
                     else ''['' @ showNat index @ '']'')
      in chunkArrayItems clock js options analysisType items (Suc index) currentPath
           (recursiveJsonChunk clock js options analysisType item newPath chunks))"
| "chunkObjectEntries clock js options analysisType [] currentPath chunks = chunks"
| "chunkObjectEntries clock js options analysisType ((key, val) # entries) currentPath chunks =
     (let newPath = (if currentPath \<noteq> [] then currentPath @ ''.'' @ key else key)
      in chunkObjectEntries clock js options analysisType entries currentPath
           (recursiveJsonChunk clock js options analysisType val newPath chunks))"
  by pat_completeness auto
termination
  by (relation "measure (\<lambda>x. case x of
        Inl (_, _, _, _, obj, _, _) \<Rightarrow> 2 * size obj
      | Inr (Inl (_, _, _, _, items, _, _, _)) \<Rightarrow> 2 * size_list size items + 1
      | Inr (Inr (_, _, _, _, entries, _, _)) \<Rightarrow> 2 * size_list (size_prod (\<lambda>_. 0) size) entries + 1)")
    auto

definition chunkJson ::
  "(nat \<Rightarrow> nat) \<Rightarrow> JsonRuntime \<Rightarrow> ChunkingOptions \<Rightarrow> string \<Rightarrow> string \<Rightarrow> ChunkData list option" where
  "chunkJson clock js options jsonStr analysisType =
     (case parse js jsonStr of
        Some parsedJson \<Rightarrow> Some (recursiveJsonChunk clock js options analysisType parsedJson [] [])
      | None \<Rightarrow> chunkUnstructured clock options jsonStr analysisType)"

text \<open>
  \<open>createChunks\<close> looks the strategy up under the four own keys of \<open>strategies\<close> and
  throws for any other analysis type.
\<close>

definition createChunks ::
  "(nat \<Rightarrow> nat) \<Rightarrow> JsonRuntime \<Rightarrow> ChunkingOptions \<Rightarrow> string \<Rightarrow> string
    \<Rightarrow> (jsError + ChunkData list) option" where
  "createChunks clock js options analysisType content =
     (if analysisType = ''UNSTRUCTURED'' then
        map_option Inr (chunkUnstructured clock options content analysisType)
      else if analysisType = ''CSV'' then
        map_option Inr (chunkByColumn clock options content analysisType)
      else if analysisType = ''JSON'' then
        map_option Inr (chunkJson clock js options content analysisType)
      else if analysisType = ''SPREADSHEET'' then
        map_option Inr (chunkByColumn clock options content analysisType)
      else Some (Inl (Error (''Unsupported analysis type: '' @ analysisType))))"

section \<open>DeduperTool\<close>

record DeduplicationConfig =
  caseSensitive :: bool

definition defaultDeduplicationConfig :: DeduplicationConfig where
  "defaultDeduplicationConfig = \<lparr>caseSensitive = False\<rparr>"

text \<open>
  The type guards: \<open>'text' in entity && typeof entity.text === 'string'\<close> and its
  siblings are tests of presence on the optional fields.
\<close>

definition isUnstructuredSensitiveEntity :: "SensitiveEntity \<Rightarrow> bool" where
  "isUnstructuredSensitiveEntity e = (text' e \<noteq> None)"

definition isSpreadsheetSensitiveEntity :: "SensitiveEntity \<Rightarrow> bool" where
  "isSpreadsheetSensitiveEntity e = (ranges e \<noteq> None \<and> sheetName e \<noteq> None)"

definition isStructuredSensitiveEntity :: "SensitiveEntity \<Rightarrow> bool" where
  "isStructuredSensitiveEntity e = (path e \<noteq> None \<and> \<not> (ranges e \<noteq> None))"

text \<open>\<open>String.prototype.toLowerCase\<close> on code units below 256.\<close>

definition toLowerChar :: "char \<Rightarrow> char" where
  "toLowerChar c =
     (let n = of_char c :: nat in
      if (65 \<le> n \<and> n \<le> 90) \<or> (192 \<le> n \<and> n \<le> 222 \<and> n \<noteq> 215) then char_of (n + 32) else c)"

definition toLowerCase :: "string \<Rightarrow> string" where
  "toLowerCase s = map toLowerChar s"

text \<open>
  \<open>[...ranges].sort((a, b) => a.localeCompare(b))\<close>: the sort is stable, and
  \<open>localeCompare\<close> belongs to the runtime, so the comparator is a parameter of the
  model.  For a consistent comparator the result is the stable insertion sort below.
\<close>

fun insertBy :: "('a \<Rightarrow> 'a \<Rightarrow> int) \<Rightarrow> 'a \<Rightarrow> 'a list \<Rightarrow> 'a list" where
  "insertBy cmp x [] = [x]"
| "insertBy cmp x (y # ys) = (if cmp x y \<le> 0 then x # y # ys else y # insertBy cmp x ys)"

fun sortBy :: "('a \<Rightarrow> 'a \<Rightarrow> int) \<Rightarrow> 'a list \<Rightarrow> 'a list" where
  "sortBy cmp [] = []"
| "sortBy cmp (x # xs) = insertBy cmp x (sortBy cmp xs)"

text \<open>
  \<open>deduplicateByKey\<close>: \<open>seen\<close> is a \<open>Map\<close>, which keeps its keys in insertion order
  and leaves a key in place when its value is replaced; that is an association list
  under \<^const>\<open>AList.update\<close>.  A key extractor that reads a property of an absent
  field throws (\<open>None\<close>).
\<close>

fun dedupLoop :: "(SensitiveEntity \<Rightarrow> string option) \<Rightarrow> SensitiveEntity list
    \<Rightarrow> (string \<times> SensitiveEntity) list \<Rightarrow> jsError + (string \<times> SensitiveEntity) list" where
  "dedupLoop keyExtractor [] seen = Inr seen"
| "dedupLoop keyExtractor (e # es) seen =
     (case keyExtractor e of
        None \<Rightarrow> Inl (TypeError ''Cannot read properties of undefined'')
      | Some key \<Rightarrow>
          (case map_of seen key of
             None \<Rightarrow> dedupLoop keyExtractor es (AList.update key e seen)
           | Some existing \<Rightarrow>
               if confidence existing < confidence e
               then dedupLoop keyExtractor es (AList.update key e seen)
               else dedupLoop keyExtractor es seen))"

definition deduplicateByKey :: "SensitiveEntity list \<Rightarrow> (SensitiveEntity \<Rightarrow> string option)
    \<Rightarrow> jsError + SensitiveEntity list" where
  "deduplicateByKey entities keyExtractor =
     (case dedupLoop keyExtractor entities [] of
        Inl err \<Rightarrow> Inl err
      | Inr seen \<Rightarrow> Inr (map snd seen))"

definition normalizeRanges :: "(string \<Rightarrow> string \<Rightarrow> int) \<Rightarrow> string list \<Rightarrow> string" where
  "normalizeRanges localeCompare rs = join '','' (sortBy localeCompare rs)"

definition removeDuplicates :: "(string \<Rightarrow> string \<Rightarrow> int) \<Rightarrow> DeduplicationConfig
    \<Rightarrow> SensitiveEntity list \<Rightarrow> string \<Rightarrow> jsError + SensitiveEntity list" where
  "removeDuplicates localeCompare config entities analysisType =
     (if analysisType = ''UNSTRUCTURED'' then
        deduplicateByKey (filter isUnstructuredSensitiveEntity entities)
          (\<lambda>e. map_option (\<lambda>t. if caseSensitive config then t else toLowerCase t) (text' e))
      else if analysisType = ''SPREADSHEET'' then
        deduplicateByKey (filter isSpreadsheetSensitiveEntity entities)
          (\<lambda>e. case sheetName e of
                 None \<Rightarrow> None
               | Some s \<Rightarrow> map_option (\<lambda>rs. s @ '':'' @ normalizeRanges localeCompare rs) (ranges e))
      else if analysisType = ''JSON'' then
        deduplicateByKey (filter isStructuredSensitiveEntity entities) path
      else if analysisType = ''CSV'' then
        deduplicateByKey (filter isStructuredSensitiveEntity entities) path
      else Inr entities)"

text \<open>
  The one effect of \<open>removeDuplicates\<close> besides its result: the \<open>console.warn\<close> of
  each branch, issued when the type guard has dropped an entity and the process does
  not run under \<open>NODE_ENV === 'test'\<close>.  It is given as a function of its own.
\<close>

definition mismatchWarning :: "bool \<Rightarrow> SensitiveEntity list \<Rightarrow> string \<Rightarrow> string option" where
  "mismatchWarning isTest entities analysisType =
     (let warning = (\<lambda>kind matched.
            if length matched \<noteq> length entities \<and> \<not> isTest
            then Some (''Expected '' @ showNat (length entities) @ '' '' @ kind @ '' entities, but only '' @
                       showNat (length matched) @ '' matched the type'')
            else None)
      in if analysisType = ''UNSTRUCTURED'' then
           warning ''unstructured'' (filter isUnstructuredSensitiveEntity entities)
         else if analysisType = ''SPREADSHEET'' then
           warning ''spreadsheet'' (filter isSpreadsheetSensitiveEntity entities)
         else if analysisType = ''JSON'' then
           warning ''JSON'' (filter isStructuredSensitiveEntity entities)
         else if analysisType = ''CSV'' then
           warning ''CSV'' (filter isStructuredSensitiveEntity entities)
         else None)"

section \<open>The pipeline: identifier, workflow and entry point\<close>

text \<open>
  \<open>instanceof Error\<close>, \<open>error.message\<close> and \<open>String.prototype.includes\<close>.
\<close>

definition instanceofError :: "jsError \<Rightarrow> bool" where
  "instanceofError e = (case e of NonError \<Rightarrow> False | _ \<Rightarrow> True)"

definition messageOf :: "jsError \<Rightarrow> string" where
  "messageOf e = (case e of Error m \<Rightarrow> m | TypeError m \<Rightarrow> m | NonError \<Rightarrow> [])"

fun includes' :: "string \<Rightarrow> string \<Rightarrow> bool" where
  "includes' [] sub = (sub = [])"
| "includes' (c # cs) sub = (take (length sub) (c # cs) = sub \<or> includes' cs sub)"

text \<open>
  The job and its policies; the fields carry the prefixes \<open>j_\<close> and \<open>p_\<close>.  Of a
  policy only \<open>id\<close> and \<open>name\<close> are kept, the two that \<open>TriggerSchema\<close> reads (and the
  only ones its \<open>z.object\<close> lets through).
\<close>

record PolicyFragment =
  p_id :: string
  p_name :: string

record ProcessingJob =
  j_content :: string
  j_analysisType :: string
  j_policies :: "PolicyFragment list"

text \<open>
  \<open>TriggerSchema.parse\<close>: \<open>content\<close> is \<open>z.string().min(1)\<close>, \<open>analysisType\<close> a
  \<open>z.enum\<close> of the four names, \<open>policies\<close> an array with \<open>.min(1)\<close> of objects whose
  \<open>id\<close> and \<open>name\<close> are \<open>z.string()\<close>, with no bound on their length: on a typed job
  the two string checks always pass.  The parser reports every issue it finds.
\<close>

datatype zodIssue = ContentTooSmall | InvalidAnalysisType | PoliciesTooSmall

definition TriggerSchema_parse :: "ProcessingJob \<Rightarrow> zodIssue list + ProcessingJob" where
  "TriggerSchema_parse job =
     (let issues =
            (if length (j_content job) < 1 then [ContentTooSmall] else []) @
            (if j_analysisType job \<notin> set [''UNSTRUCTURED'', ''CSV'', ''JSON'', ''SPREADSHEET'']
             then [InvalidAnalysisType] else []) @
            (if length (j_policies job) < 1 then [PoliciesTooSmall] else [])
      in if issues = [] then Inr job else Inl issues)"

text \<open>
  The checks of the route \<open>/api/analyze\<close> on the request body, before it calls
  \<open>analyzeSensitiveContent\<close>: the message of the 400 response, or \<open>None\<close> when the body
  passes.
\<close>

definition apiValidation :: "ProcessingJob \<Rightarrow> string option" where
  "apiValidation body =
     (if trim (j_content body) = [] then Some ''Content is required for analysis''
      else if length (j_policies body) = 0
           \<or> \<not> list_all (\<lambda>p. p_id p \<noteq> [] \<and> p_name p \<noteq> []) (j_policies body)
      then Some ''At least one valid policy must be selected''
      else if j_analysisType body = []
           \<or> j_analysisType body \<notin> set [''UNSTRUCTURED'', ''CSV'', ''JSON'', ''SPREADSHEET'']
      then Some ''Valid analysis type is required''
      else None)"

text \<open>Streaming events, statistics and the result of a run.\<close>

record StreamingEntityThinking =
  s_thinking :: "string option"
  s_entity :: "string option"
  s_reference :: "string option"
  s_confidence :: "real option"
  s_rankHex :: "string option"
  s_category :: "string option"
  s_path :: "string option"
  s_ranges :: "string list option"
  s_sheetName :: "string option"
  s_text :: "string option"

record ThinkingEventData =
  t_chunkId :: string
  t_entities :: "StreamingEntityThinking list"
  t_timestamp :: nat

record AnalysisStats =
  chunksGenerated :: nat
  entitiesFound :: nat
  entitiesValidated :: nat
  entitiesDeduplicated :: nat
  processingTimeMs :: int

record PipelineResult =
  r_entities :: "SensitiveEntity list"
  r_chunks :: "ChunkData list"
  r_stats :: AnalysisStats


text \<open>
  What a run takes from outside.  The model behind \<open>streamObject\<close> is an oracle:
  for a chunk it gives the partial objects that arrive, each with the time at which it
  arrives, and then either the thrown value or the final entities
  (\<open>finalResult?.entities || []\<close>).  \<open>e_isTest\<close> is \<open>process.env.NODE_ENV === 'test'\<close>;
  \<open>e_startTime\<close> and \<open>e_endTime\<close> are the two readings of \<open>Date.now()\<close> in \<open>execute\<close>;
  \<open>e_zodMessage\<close> is the message the schema library gives a list of issues.
\<close>

record LlmRun =
  partials :: "(StreamingEntityThinking list \<times> nat) list"
  final :: "jsError + SensitiveEntity list"

record Env =
  e_clock :: "nat \<Rightarrow> nat"
  e_json :: JsonRuntime
  e_localeCompare :: "string \<Rightarrow> string \<Rightarrow> int"
  e_llm :: "ChunkData \<Rightarrow> PolicyFragment list \<Rightarrow> string \<Rightarrow> LlmRun"
  e_isTest :: bool
  e_startTime :: int
  e_endTime :: int
  e_zodMessage :: "zodIssue list \<Rightarrow> string"

text \<open>
  \<open>identifySensitiveEntities\<close>: the \<open>try\<close> block gives the events streamed and either
  the entities or the thrown value; the \<open>catch\<close> block then decides.  The event sink
  is taken not to throw, and the cache of formatted policies does not change a result.
\<close>

definition identifySensitiveEntities ::
  "Env \<Rightarrow> ChunkData \<Rightarrow> PolicyFragment list \<Rightarrow> string \<Rightarrow> ThinkingEventData list \<times> (jsError + SensitiveEntity list)" where
  "identifySensitiveEntities env chunk policies' analysisType =
     (let (streamed, attempt) =
            (if analysisType \<notin> set [''CSV'', ''JSON'', ''UNSTRUCTURED'', ''SPREADSHEET'']
             then ([], Inl (Error (''Unsupported analysis type: '' @ analysisType)))
             else (let run = e_llm env chunk policies' analysisType in
                   (map (\<lambda>(es, now). \<lparr>t_chunkId = c_id chunk, t_entities = es, t_timestamp = now\<rparr>)
                      (filter (\<lambda>(es, now). length es > 0) (partials run)),
                    final run)))
      in case attempt of
           Inr entities \<Rightarrow> (streamed, Inr entities)
         | Inl err \<Rightarrow>
             if instanceofError err \<and> includes' (messageOf err) ''API key''
             then (streamed, Inl (Error ''Configuration error: Invalid OpenAI API key''))
             else if e_isTest env then
               (if instanceofError err \<and>
                   (includes' (messageOf err) ''Invalid JSON response'' \<or>
                    includes' (messageOf err) ''Policy loading failed'' \<or>
                    includes' (messageOf err) ''Model generation failed'')
                then (streamed, Inr [])
                else (streamed, Inl err))
             else (streamed, Inr []))"

text \<open>
  A \<open>Workflow\<close> holds its three configured tools; \<open>new Workflow()\<close> builds them with
  the defaults (the validator with \<open>minimumConfidence: 7\<close>).
\<close>

record Workflow =
  w_chunker :: ChunkingOptions
  w_validator :: ValidationConfig
  w_deduper :: DeduplicationConfig

definition newWorkflow :: Workflow where
  "newWorkflow = \<lparr>w_chunker = defaultChunkingOptions,
     w_validator = defaultValidationConfig\<lparr>minimumConfidence := 7\<rparr>,
     w_deduper = defaultDeduplicationConfig\<rparr>"

definition executeValidationStep :: "Workflow \<Rightarrow> SensitiveEntity list \<Rightarrow> SensitiveEntity list" where
  "executeValidationStep w entities =
     (if length entities = 0 then [] else validateEntities (w_validator w) entities)"

definition executeDeduplicationStep ::
  "Env \<Rightarrow> Workflow \<Rightarrow> SensitiveEntity list \<Rightarrow> string \<Rightarrow> jsError + SensitiveEntity list" where
  "executeDeduplicationStep env w entities analysisType =
     (if length entities = 0 then Inr []
      else removeDuplicates (e_localeCompare env) (w_deduper w) entities analysisType)"

text \<open>
  One task of the queue.  The calls a run makes to the tools are logged, so that a
  statement can say which work was begun.  A task gives the number of entities found
  and the validated entities, or the wrapped error.
\<close>

datatype call = CallCreateChunks | CallIdentify nat | CallValidate nat | CallDedupe

record TaskRun =
  k_calls :: "call list"
  k_events :: "ThinkingEventData list"
  k_result :: "jsError + (nat \<times> SensitiveEntity list)"

definition chunkTask :: "Env \<Rightarrow> Workflow \<Rightarrow> ProcessingJob \<Rightarrow> nat \<Rightarrow> ChunkData \<Rightarrow> TaskRun" where
  "chunkTask env w validatedJob index chunk =
     (case identifySensitiveEntities env chunk (j_policies validatedJob) (j_analysisType validatedJob) of
        (streamed, Inr entities) \<Rightarrow>
          \<lparr>k_calls = [CallIdentify index, CallValidate index], k_events = streamed,
           k_result = Inr (length entities, executeValidationStep w entities)\<rparr>
      | (streamed, Inl chunkError) \<Rightarrow>
          \<lparr>k_calls = [CallIdentify index], k_events = streamed,
           k_result = Inl (Error (''Chunk '' @ showNat (index + 1) @ '' processing failed: '' @
             (if instanceofError chunkError then messageOf chunkError else ''Unknown error'')))\<rparr>)"

text \<open>
  \<open>Promise.all\<close> over the tasks, under the schedule in which the tasks settle one
  after the other in the order of the chunks: the first rejection settles it, the
  tasks behind it still run, and what they stream arrives after the rejection
  (\<open>d_after\<close>).  The counters are the sums over the tasks.
\<close>

record Settled =
  d_calls :: "call list"
  d_before :: "ThinkingEventData list"
  d_outcome :: "jsError + (nat \<times> nat \<times> SensitiveEntity list)"
  d_after :: "ThinkingEventData list"

fun runTasks :: "Env \<Rightarrow> Workflow \<Rightarrow> ProcessingJob \<Rightarrow> nat \<Rightarrow> ChunkData list \<Rightarrow> Settled" where
  "runTasks env w validatedJob index [] =
     \<lparr>d_calls = [], d_before = [], d_outcome = Inr (0, 0, []), d_after = []\<rparr>"
| "runTasks env w validatedJob index (chunk # chunks) =
     (let task = chunkTask env w validatedJob index chunk;
          rest = runTasks env w validatedJob (Suc index) chunks
      in case k_result task of
           Inl err \<Rightarrow>
             \<lparr>d_calls = k_calls task @ d_calls rest, d_before = k_events task, d_outcome = Inl err,
              d_after = d_before rest @ d_after rest\<rparr>
         | Inr (found, validated) \<Rightarrow>
             \<lparr>d_calls = k_calls task @ d_calls rest, d_before = k_events task @ d_before rest,
              d_outcome =
                (case d_outcome rest of
                   Inl err \<Rightarrow> Inl err
                 | Inr (identifiedCount, validatedCount, results) \<Rightarrow>
                     Inr (found + identifiedCount, length validated + validatedCount,
                          validated @ results)),
              d_after = d_after rest\<rparr>)"

text \<open>
  \<open>execute\<close>.  Every error thrown inside the \<open>try\<close> is thrown again as
  \<open>Sensitive analysis failed: \<dots>\<close>.  \<open>None\<close> is a run whose chunking never returns.
\<close>

record Execution =
  x_calls :: "call list"
  x_before :: "ThinkingEventData list"
  x_outcome :: "jsError + PipelineResult"
  x_after :: "ThinkingEventData list"

definition failed :: "jsError \<Rightarrow> jsError" where
  "failed err = Error (''Sensitive analysis failed: '' @
     (if instanceofError err then messageOf err else ''Unknown error''))"

definition execute :: "Env \<Rightarrow> Workflow \<Rightarrow> ProcessingJob \<Rightarrow> Execution option" where
  "execute env w job =
     (case TriggerSchema_parse job of
        Inl issues \<Rightarrow>
          Some \<lparr>x_calls = [], x_before = [], x_outcome = Inl (failed (Error (e_zodMessage env issues))),
                x_after = []\<rparr>
      | Inr validatedJob \<Rightarrow>
          (case createChunks (e_clock env) (e_json env) (w_chunker w) (j_analysisType validatedJob)
                  (j_content validatedJob) of
             None \<Rightarrow> None
           | Some (Inl err) \<Rightarrow>
               Some \<lparr>x_calls = [CallCreateChunks], x_before = [], x_outcome = Inl (failed err),
                     x_after = []\<rparr>
           | Some (Inr chunks) \<Rightarrow>
               (let settled = runTasks env w validatedJob 0 chunks in
                case d_outcome settled of
                  Inl err \<Rightarrow>
                    Some \<lparr>x_calls = CallCreateChunks # d_calls settled, x_before = d_before settled,
                          x_outcome = Inl (failed err), x_after = d_after settled\<rparr>
                | Inr (identifiedCount, validatedCount, results) \<Rightarrow>
                    (case executeDeduplicationStep env w results (j_analysisType job) of
                       Inl err \<Rightarrow>
                         Some \<lparr>x_calls = CallCreateChunks # d_calls settled @ [CallDedupe],
                               x_before = d_before settled, x_outcome = Inl (failed err),
                               x_after = d_after settled\<rparr>
                     | Inr finalEntities \<Rightarrow>
                         Some \<lparr>x_calls = CallCreateChunks # d_calls settled @ [CallDedupe],
                               x_before = d_before settled,
                               x_outcome = Inr \<lparr>r_entities = finalEntities, r_chunks = chunks,
                                  r_stats = \<lparr>chunksGenerated = length chunks,
                                     entitiesFound = identifiedCount,
                                     entitiesValidated = validatedCount,
                                     entitiesDeduplicated = length finalEntities,
                                     processingTimeMs = e_endTime env - e_startTime env\<rparr>\<rparr>,
                               x_after = d_after settled\<rparr>))))"


section \<open>Configuration objects and their getters\<close>

text \<open>
  The three tools keep their configuration in an object on the heap and hold a
  reference to it (\<open>this.options\<close>, \<open>this.config\<close>).  The store maps references to
  objects; \<open>alloc\<close> is the creation of an object, at the next free reference.
\<close>

datatype configObject =
    ChunkingOptionsObj ChunkingOptions
  | ValidationConfigObj ValidationConfig
  | DeduplicationConfigObj DeduplicationConfig

record Store =
  cells :: "nat \<Rightarrow> configObject option"
  nextRef :: nat

definition alloc :: "configObject \<Rightarrow> Store \<Rightarrow> nat \<times> Store" where
  "alloc obj st = (nextRef st, \<lparr>cells = (cells st)(nextRef st \<mapsto> obj), nextRef = Suc (nextRef st)\<rparr>)"

text \<open>
  \<open>{ ...base, ...part }\<close> for a partial configuration: a property that \<open>part\<close> has
  overrides the one of \<open>base\<close>.
\<close>

record PartialChunkingOptions =
  pc_chunkSize :: "int option"
  pc_overlap :: "int option"
  pc_columnChunkSize :: "int option"

record PartialValidationConfig =
  pv_minimumConfidence :: "real option"
  pv_enableStrictMode :: "bool option"

record PartialDeduplicationConfig =
  pd_caseSensitive :: "bool option"

definition spreadChunking :: "ChunkingOptions \<Rightarrow> PartialChunkingOptions \<Rightarrow> ChunkingOptions" where
  "spreadChunking base part =
     \<lparr>chunkSize = (case pc_chunkSize part of Some v \<Rightarrow> v | None \<Rightarrow> chunkSize base),
      overlap = (case pc_overlap part of Some v \<Rightarrow> v | None \<Rightarrow> overlap base),
      columnChunkSize = (case pc_columnChunkSize part of Some v \<Rightarrow> v | None \<Rightarrow> columnChunkSize base)\<rparr>"

definition spreadValidation :: "ValidationConfig \<Rightarrow> PartialValidationConfig \<Rightarrow> ValidationConfig" where
  "spreadValidation base part =
     \<lparr>minimumConfidence =
        (case pv_minimumConfidence part of Some v \<Rightarrow> v | None \<Rightarrow> minimumConfidence base),
      enableStrictMode =
        (case pv_enableStrictMode part of Some v \<Rightarrow> v | None \<Rightarrow> enableStrictMode base)\<rparr>"

definition spreadDeduplication ::
  "DeduplicationConfig \<Rightarrow> PartialDeduplicationConfig \<Rightarrow> DeduplicationConfig" where
  "spreadDeduplication base part =
     \<lparr>caseSensitive = (case pd_caseSensitive part of Some v \<Rightarrow> v | None \<Rightarrow> caseSensitive base)\<rparr>"

text \<open>
  A chunker, a validator and a deduper, each with the reference it holds, and the
  references that their getters have handed to the caller so far.  \<open>newWorld\<close> runs the
  three constructors.
\<close>

record World =
  store :: Store
  chunkerOptions :: nat
  validatorConfig :: nat
  deduperConfig :: nat
  handed :: "nat list"

definition newWorld ::
  "PartialChunkingOptions \<Rightarrow> PartialValidationConfig \<Rightarrow> PartialDeduplicationConfig \<Rightarrow> World" where
  "newWorld pc pv pd =
     (let (c, st1) = alloc (ChunkingOptionsObj (spreadChunking defaultChunkingOptions pc))
                       \<lparr>cells = (\<lambda>r. None), nextRef = 0\<rparr>;
          (v, st2) = alloc (ValidationConfigObj (spreadValidation defaultValidationConfig pv)) st1;
          (d, st3) = alloc (DeduplicationConfigObj (spreadDeduplication defaultDeduplicationConfig pd)) st2
      in \<lparr>store = st3, chunkerOptions = c, validatorConfig = v, deduperConfig = d, handed = []\<rparr>)"

text \<open>
  What a caller can do: call a getter, call \<open>updateConfig\<close>, write to an object a getter
  has handed out (\<open>Mutate i obj\<close>: the \<open>i\<close>-th one now holds \<open>obj\<close>, which stands for
  any assignments to its properties), and use a tool.  What it observes: the object a
  getter returns, as it is when returned, and the results of the tools.  \<open>Stuck\<close> marks
  a tool whose reference holds no configuration of its kind.
\<close>

datatype operation =
    GetOptions
  | ValidatorGetConfig
  | DeduperGetConfig
  | ValidatorUpdateConfig PartialValidationConfig
  | DeduperUpdateConfig PartialDeduplicationConfig
  | Mutate nat configObject
  | CreateChunks string string
  | ValidateEntities "SensitiveEntity list"
  | RemoveDuplicates "SensitiveEntity list" string

datatype observation =
    Got configObject
  | Chunked "(jsError + ChunkData list) option"
  | Validated "SensitiveEntity list"
  | Deduplicated "jsError + SensitiveEntity list"
  | Stuck

text \<open>
  A getter returns \<open>{ ...this.config }\<close>, a new object with the same properties;
  \<open>updateConfig\<close> assigns a new object to \<open>this.config\<close>; the tools read their
  configuration through the reference they hold.
\<close>

definition getter :: "World \<Rightarrow> nat \<Rightarrow> World \<times> observation list" where
  "getter w r =
     (case cells (store w) r of
        None \<Rightarrow> (w, [Stuck])
      | Some obj \<Rightarrow>
          (let (copy, st) = alloc obj (store w)
           in (w\<lparr>store := st, handed := handed w @ [copy]\<rparr>, [Got obj])))"

fun perform :: "Env \<Rightarrow> World \<Rightarrow> operation \<Rightarrow> World \<times> observation list" where
  "perform env w GetOptions = getter w (chunkerOptions w)"
| "perform env w ValidatorGetConfig = getter w (validatorConfig w)"
| "perform env w DeduperGetConfig = getter w (deduperConfig w)"
| "perform env w (ValidatorUpdateConfig newConfig) =
     (case cells (store w) (validatorConfig w) of
        Some (ValidationConfigObj config) \<Rightarrow>
          (let (r, st) = alloc (ValidationConfigObj (spreadValidation config newConfig)) (store w)
           in (w\<lparr>store := st, validatorConfig := r\<rparr>, []))
      | _ \<Rightarrow> (w, [Stuck]))"
| "perform env w (DeduperUpdateConfig newConfig) =
     (case cells (store w) (deduperConfig w) of
        Some (DeduplicationConfigObj config) \<Rightarrow>
          (let (r, st) = alloc (DeduplicationConfigObj (spreadDeduplication config newConfig)) (store w)
           in (w\<lparr>store := st, deduperConfig := r\<rparr>, []))
      | _ \<Rightarrow> (w, [Stuck]))"
| "perform env w (Mutate i obj) =
     (if i < length (handed w)
      then (w\<lparr>store := (store w)\<lparr>cells := (cells (store w))(handed w ! i \<mapsto> obj)\<rparr>\<rparr>, [])
      else (w, []))"
| "perform env w (CreateChunks analysisType content) =
     (case cells (store w) (chunkerOptions w) of
        Some (ChunkingOptionsObj options) \<Rightarrow>
          (w, [Chunked (createChunks (e_clock env) (e_json env) options analysisType content)])
      | _ \<Rightarrow> (w, [Stuck]))"
| "perform env w (ValidateEntities entities) =
     (case cells (store w) (validatorConfig w) of
        Some (ValidationConfigObj config) \<Rightarrow> (w, [Validated (validateEntities config entities)])
      | _ \<Rightarrow> (w, [Stuck]))"
| "perform env w (RemoveDuplicates entities analysisType) =
     (case cells (store w) (deduperConfig w) of
        Some (DeduplicationConfigObj config) \<Rightarrow>
          (w, [Deduplicated (removeDuplicates (e_localeCompare env) config entities analysisType)])
      | _ \<Rightarrow> (w, [Stuck]))"

fun performAll :: "Env \<Rightarrow> World \<Rightarrow> operation list \<Rightarrow> observation list" where
  "performAll env w [] = []"
| "performAll env w (op # ops) = (let (w', obs) = perform env w op in obs @ performAll env w' ops)"

section \<open>Vocabulary of the statements\<close>

text \<open>
  Two comparators for concrete instances.  The first orders strings by code units.
  The second does what the collation behind \<open>localeCompare\<close> does with the soft hyphen
  U+00AD: it gives that character no weight, so that two strings that differ in soft
  hyphens only compare as equal (\<open>A1\<close> followed by U+00AD against \<open>A1\<close> gives 0);
  what is left it compares by code units.
\<close>

definition codeUnitCompare :: "string \<Rightarrow> string \<Rightarrow> int" where
  "codeUnitCompare a b = (if a < b then - 1 else if a = b then 0 else 1)"



text \<open>
  The type guard and the identity key that \<open>removeDuplicates\<close> uses for an analysis type,
  as functions of the analysis type.
\<close>

definition matchesShape :: "string \<Rightarrow> SensitiveEntity \<Rightarrow> bool" where
  "matchesShape analysisType e =
     (if analysisType = ''UNSTRUCTURED'' then isUnstructuredSensitiveEntity e
      else if analysisType = ''SPREADSHEET'' then isSpreadsheetSensitiveEntity e
      else isStructuredSensitiveEntity e)"

definition identityKey :: "(string \<Rightarrow> string \<Rightarrow> int) \<Rightarrow> DeduplicationConfig \<Rightarrow> string
    \<Rightarrow> SensitiveEntity \<Rightarrow> string" where
  "identityKey localeCompare config analysisType e =
     (if analysisType = ''UNSTRUCTURED'' then
        (case text' e of None \<Rightarrow> [] | Some t \<Rightarrow> if caseSensitive config then t else toLowerCase t)
      else if analysisType = ''SPREADSHEET'' then
        (case (sheetName e, ranges e) of
           (Some s, Some rs) \<Rightarrow> s @ '':'' @ join '','' (sortBy localeCompare rs)
         | _ \<Rightarrow> [])
      else (case path e of None \<Rightarrow> [] | Some p \<Rightarrow> p))"

text \<open>
  The variant that belongs to an analysis type: an entity's variant is to match the
  shape of the content it was found in, and JSON and CSV entities are both located by
  a path.
\<close>

definition variantFor :: "string \<Rightarrow> variant" where
  "variantFor analysisType =
     (if analysisType = ''UNSTRUCTURED'' then UnstructuredVariant
      else if analysisType = ''SPREADSHEET'' then SpreadsheetVariant
      else StructuredVariant)"

text \<open>The distinct elements of a list, in the order of their first occurrence.\<close>

definition firstSeen :: "'a list \<Rightarrow> 'a list" where
  "firstSeen ks = rev (remdups (rev ks))"

text \<open>
  \<open>isFirstBest key es v\<close>: \<open>v\<close> stands in \<open>es\<close> at a position such that no entity of
  the same key has a higher confidence, and every earlier one has a strictly lower
  confidence: the first of the best.
\<close>

definition isFirstBest :: "(SensitiveEntity \<Rightarrow> string) \<Rightarrow> SensitiveEntity list \<Rightarrow> SensitiveEntity \<Rightarrow> bool" where
  "isFirstBest key es v =
     (\<exists>i<length es. es ! i = v \<and>
        (\<forall>j<length es. key (es ! j) = key v \<longrightarrow>
           (if j < i then confidence (es ! j) < confidence v else confidence (es ! j) \<le> confidence v)))"

text \<open>
  One round of the loop of \<open>deduplicateByKey\<close> for a key extractor that does not throw,
  and the invariant of the loop.
\<close>

definition dedupStep :: "(SensitiveEntity \<Rightarrow> string) \<Rightarrow> (string \<times> SensitiveEntity) list \<Rightarrow> SensitiveEntity
    \<Rightarrow> (string \<times> SensitiveEntity) list" where
  "dedupStep key seen e =
     (case map_of seen (key e) of
        None \<Rightarrow> AList.update (key e) e seen
      | Some existing \<Rightarrow>
          if confidence existing < confidence e then AList.update (key e) e seen else seen)"

definition dedupInv :: "(SensitiveEntity \<Rightarrow> string) \<Rightarrow> SensitiveEntity list \<Rightarrow> (string \<times> SensitiveEntity) list \<Rightarrow> bool" where
  "dedupInv key es seen =
     (map fst seen = firstSeen (map key es) \<and>
      (\<forall>k v. map_of seen k = Some v \<longrightarrow> key v = k \<and> isFirstBest key es v))"

text \<open>
  The analysis types of the enumeration; what it takes for \<open>sort\<close> to give one result
  for every order of a list: that the comparator orders the strings of the list
  linearly, which includes that it returns 0 for two of them only when they are the
  same string; and entities for concrete instances.
\<close>

definition recognized :: "string \<Rightarrow> bool" where
  "recognized analysisType = (analysisType \<in> {''UNSTRUCTURED'', ''SPREADSHEET'', ''JSON'', ''CSV''})"


definition sheetEntity :: "string list \<Rightarrow> real \<Rightarrow> SensitiveEntity" where
  "sheetEntity rs c = baseEntity\<lparr>confidence := c, ranges := Some rs, sheetName := Some ''Sheet1''\<rparr>"

definition textEntity :: "string \<Rightarrow> real \<Rightarrow> SensitiveEntity" where
  "textEntity t c = baseEntity\<lparr>confidence := c, text' := Some t\<rparr>"

definition pathEntity :: "string \<Rightarrow> real \<Rightarrow> SensitiveEntity" where
  "pathEntity p c = baseEntity\<lparr>confidence := c, path := Some p\<rparr>"

definition mixedEntities :: "SensitiveEntity list" where
  "mixedEntities =
     [textEntity ''John@x.com'' 8, textEntity ''other'' 7, pathEntity ''user.email'' 9,
      textEntity ''john@x.com'' 9, sheetEntity [''A1:A5''] 9, textEntity ''JOHN@x.com'' 9]"

text \<open>
  A list for JSON and CSV: three entities of the path \<open>user.email\<close>, told apart by
  \<open>rankHex\<close>, of which the second and the third share the highest confidence; two
  other paths; and two entities of other variants.
\<close>

definition structuredEntities :: "SensitiveEntity list" where
  "structuredEntities =
     [pathEntity ''user.email'' 8, textEntity ''John'' 9, pathEntity ''user.name'' 7,
      (pathEntity ''user.email'' 9)\<lparr>rankHex := ''0x2''\<rparr>, sheetEntity [''A1:A5''] 9,
      (pathEntity ''user.email'' 9)\<lparr>rankHex := ''0x3''\<rparr>, pathEntity ''User.email'' 6]"

text \<open>
  The size and the step that \<open>chunkUnstructured\<close> computes from the options, the chunk
  it cuts at the \<open>i\<close>-th window, and the range of content positions a chunk stands for.
\<close>

definition effectiveSize :: "ChunkingOptions \<Rightarrow> int" where
  "effectiveSize options = max 1 (chunkSize options)"

definition effectiveStep :: "ChunkingOptions \<Rightarrow> int" where
  "effectiveStep options = max 1 (max 1 (chunkSize options) - max 0 (overlap options))"

definition windowChunk :: "(nat \<Rightarrow> nat) \<Rightarrow> string \<Rightarrow> string \<Rightarrow> int \<Rightarrow> int \<Rightarrow> int \<Rightarrow> nat \<Rightarrow> nat \<Rightarrow> ChunkData" where
  "windowChunk clock analysisType str size' step start base i =
     \<lparr>c_id = generateChunkId clock (base + i),
      c_text = slice str (start + int i * step) (min (int (length str)) (start + int i * step + size')),
      c_offset = start + int i * step, c_analysisType = analysisType\<rparr>"

definition chunkRange :: "ChunkData \<Rightarrow> int set" where
  "chunkRange c = {c_offset c ..< c_offset c + int (length (c_text c))}"

text \<open>A runtime without JSON, and the chunks cut at clock 0, for concrete instances.\<close>

definition sampleJson :: JsonRuntime where
  "sampleJson = \<lparr>parse = (\<lambda>s. None), stringify = (\<lambda>j. []), stringifyIndented = (\<lambda>j. [])\<rparr>"

definition sampleChunk :: "nat \<Rightarrow> string \<Rightarrow> int \<Rightarrow> ChunkData" where
  "sampleChunk i t off =
     \<lparr>c_id = ''chunk_0_'' @ showNat i, c_text = t, c_offset = off, c_analysisType = ''UNSTRUCTURED''\<rparr>"



definition sampleEnv :: Env where
  "sampleEnv = \<lparr>e_clock = (\<lambda>i. 0), e_json = sampleJson, e_localeCompare = codeUnitCompare,
     e_llm = (\<lambda>chunk ps t.
        if c_text chunk = ''bad'' then \<lparr>partials = [], final = Inl (Error ''Invalid API key'')\<rparr>
        else \<lparr>partials = [], final = Inr [textEntity ''John'' 9, textEntity ''john'' 4]\<rparr>),
     e_isTest = False, e_startTime = 100, e_endTime = 130,
     e_zodMessage = (\<lambda>issues. ''invalid job'')\<rparr>"

definition sampleJob :: "string \<Rightarrow> string \<Rightarrow> ProcessingJob" where
  "sampleJob c p = \<lparr>j_content = c, j_analysisType = ''UNSTRUCTURED'',
     j_policies = [\<lparr>p_id = p, p_name = p\<rparr>]\<rparr>"

text \<open>
  Writes to handed-out objects; the references the tools hold; and the two relations
  of the proof: a world is sound when every reference in use is allocated and no
  handed-out reference is one a tool holds, and two worlds are alike when they agree
  on everything but the contents of the handed-out objects.
\<close>

definition isMutate :: "operation \<Rightarrow> bool" where
  "isMutate op = (case op of Mutate i obj \<Rightarrow> True | _ \<Rightarrow> False)"

definition toolRefs :: "World \<Rightarrow> nat set" where
  "toolRefs w = {chunkerOptions w, validatorConfig w, deduperConfig w}"

definition sound :: "World \<Rightarrow> bool" where
  "sound w = ((\<forall>r\<in>toolRefs w. r < nextRef (store w)) \<and> (\<forall>r\<in>set (handed w). r < nextRef (store w))
     \<and> set (handed w) \<inter> toolRefs w = {})"

definition alike :: "World \<Rightarrow> World \<Rightarrow> bool" where
  "alike w w' = (chunkerOptions w = chunkerOptions w' \<and> validatorConfig w = validatorConfig w'
     \<and> deduperConfig w = deduperConfig w' \<and> handed w = handed w'
     \<and> nextRef (store w) = nextRef (store w')
     \<and> (\<forall>r\<in>toolRefs w. cells (store w) r = cells (store w') r))"

text \<open>
  A caller that writes to the options and to the validator configuration it was
  handed, on tools built with no overrides.
\<close>

definition sampleOps :: "operation list" where
  "sampleOps =
     [GetOptions,
      Mutate 0 (ChunkingOptionsObj \<lparr>chunkSize = 999, overlap = 200, columnChunkSize = 4\<rparr>),
      GetOptions,
      ValidatorGetConfig,
      Mutate 2 (ValidationConfigObj \<lparr>minimumConfidence = 999, enableStrictMode = False\<rparr>),
      ValidatorGetConfig,
      ValidateEntities [textEntity ''a'' 8]]"

definition noOverrides :: World where
  "noOverrides = newWorld \<lparr>pc_chunkSize = None, pc_overlap = None, pc_columnChunkSize = None\<rparr>
     \<lparr>pv_minimumConfidence = None, pv_enableStrictMode = None\<rparr> \<lparr>pd_caseSensitive = None\<rparr>"

chapter \<open>Properties\<close>

section \<open>Validator: the acceptance rule\<close>

lemma trim_Nil: "trim [] = []"
  by (simp add: trim_def)

lemma isValidEntity_iff: "isValidEntity config e = spec_accepts config e"
  unfolding isValidEntity_def spec_accepts_def
  by (cases "entity e = []") (auto simp: trim_Nil)

text \<open>
  Claim C4.  The validator accepts an entity exactly when its confidence is at least
  \<open>minimumConfidence\<close> and, in strict mode, its label is non-empty after trimming and its
  confidence is at least 8; equivalently the confidence reaches the effective floor
  (\<open>max minimumConfidence 8\<close> in strict mode), the bound being inclusive, so an entity
  whose confidence equals the floor passes when its label is admissible; and
  \<open>validateEntities\<close> returns exactly the accepted entities, in input order.
\<close>

theorem C4_validator_rule:
  "isValidEntity config e = spec_accepts config e
   \<and> isValidEntity config e =
       (effectiveFloor config \<le> confidence e
        \<and> (\<not> enableStrictMode config \<or> trim (entity e) \<noteq> []))
   \<and> (isValidEntity config (e\<lparr>confidence := effectiveFloor config\<rparr>) =
        (\<not> enableStrictMode config \<or> trim (entity e) \<noteq> []))
   \<and> validateEntities config es = filter (spec_accepts config) es"
proof -
  have a: "isValidEntity config e = spec_accepts config e"
    by (rule isValidEntity_iff)
  have b: "spec_accepts config e =
       (effectiveFloor config \<le> confidence e
        \<and> (\<not> enableStrictMode config \<or> trim (entity e) \<noteq> []))"
    unfolding spec_accepts_def effectiveFloor_def by auto
  have c: "isValidEntity config (e\<lparr>confidence := effectiveFloor config\<rparr>) =
        (\<not> enableStrictMode config \<or> trim (entity e) \<noteq> [])"
    unfolding isValidEntity_iff spec_accepts_def effectiveFloor_def by auto
  have d: "validateEntities config es = filter (spec_accepts config) es"
    unfolding validateEntities_def by (simp add: isValidEntity_iff cong: filter_cong)
  show ?thesis using a b c d by simp
qed

theorem C4_validator_rule_witness:
  "enableStrictMode strictConfig
   \<and> trim (entity baseEntity) \<noteq> []
   \<and> isValidEntity strictConfig baseEntity
   \<and> \<not> isValidEntity strictConfig (baseEntity\<lparr>confidence := 7.5\<rparr>)
   \<and> \<not> isValidEntity strictConfig (baseEntity\<lparr>entity := ''  ''\<rparr>)
   \<and> isValidEntity defaultValidationConfig (baseEntity\<lparr>confidence := 7\<rparr>)
   \<and> \<not> isValidEntity defaultValidationConfig (baseEntity\<lparr>confidence := 6.99\<rparr>)
   \<and> validateEntities defaultValidationConfig
         [baseEntity, baseEntity\<lparr>confidence := 6\<rparr>, baseEntity\<lparr>confidence := 9\<rparr>]
       = [baseEntity, baseEntity\<lparr>confidence := 9\<rparr>]"
  using C4_validator_rule [of strictConfig baseEntity "[]"]
    C4_validator_rule [of strictConfig "baseEntity\<lparr>confidence := 7.5\<rparr>" "[]"]
    C4_validator_rule [of strictConfig "baseEntity\<lparr>entity := ''  ''\<rparr>" "[]"]
    C4_validator_rule [of defaultValidationConfig "baseEntity\<lparr>confidence := 7\<rparr>" "[]"]
    C4_validator_rule [of defaultValidationConfig "baseEntity\<lparr>confidence := 6.99\<rparr>" "[]"]
    C4_validator_rule [of defaultValidationConfig baseEntity
      "[baseEntity, baseEntity\<lparr>confidence := 6\<rparr>, baseEntity\<lparr>confidence := 9\<rparr>]"]
  by (simp add: spec_accepts_def strictConfig_def defaultValidationConfig_def baseEntity_def
      trim_def isWhitespace_def)

section \<open>CSV: serialising a row and parsing it back\<close>

lemma plain_field:
  "dquote \<notin> set f \<Longrightarrow> comma \<notin> set f \<Longrightarrow> CR \<notin> set f \<Longrightarrow> LF \<notin> set f \<Longrightarrow>
   parseLoop (f @ rest) rows row fld False = parseLoop rest rows row (fld @ f) False"
  by (induction f arbitrary: fld) auto

lemma escapeQuotes_Cons:
  "escapeQuotes (c # f) = (if c = dquote then [dquote, dquote] else [c]) @ escapeQuotes f"
  by (simp add: escapeQuotes_def)

lemma quoted_field:
  "rest = [] \<or> hd rest \<noteq> dquote \<Longrightarrow>
   parseLoop (escapeQuotes f @ dquote # rest) rows row fld True = parseLoop rest rows row (fld @ f) False"
proof (induction f arbitrary: fld)
  case Nil
  then show ?case by (cases rest) (auto simp: escapeQuotes_def)
next
  case (Cons c f)
  obtain z zs where z: "escapeQuotes f @ dquote # rest = z # zs"
    by (cases "escapeQuotes f") auto
  show ?case
  proof (cases "c = dquote")
    case True
    have "parseLoop (escapeQuotes (c # f) @ dquote # rest) rows row fld True
        = parseLoop (escapeQuotes f @ dquote # rest) rows row (fld @ [dquote]) True"
      using True by (simp add: escapeQuotes_Cons)
    then show ?thesis using True Cons.IH [OF Cons.prems, of "fld @ [dquote]"] by simp
  next
    case False
    have "parseLoop (escapeQuotes (c # f) @ dquote # rest) rows row fld True
        = parseLoop (escapeQuotes f @ dquote # rest) rows row (fld @ [c]) True"
      using False by (simp add: escapeQuotes_Cons)
    then show ?thesis using Cons.IH [OF Cons.prems, of "fld @ [c]"] by simp
  qed
qed

lemma set_escapeQuotes: "set (escapeQuotes f) = set f"
  by (induction f) (auto simp: escapeQuotes_def)

lemma escapeQuotes_plain: "dquote \<notin> set f \<Longrightarrow> escapeQuotes f = f"
  by (induction f) (auto simp: escapeQuotes_def)

lemma field_roundtrip:
  assumes rest: "rest = [] \<or> hd rest = comma"
  shows "parseLoop (serializeField f @ rest) rows row fld False = parseLoop rest rows row (fld @ f) False"
proof (cases "comma \<in> set f \<or> dquote \<in> set f \<or> CR \<in> set f \<or> LF \<in> set f")
  case True
  then have s: "serializeField f = dquote # escapeQuotes f @ [dquote]"
    by (simp add: serializeField_def Let_def set_escapeQuotes)
  have r: "rest = [] \<or> hd rest \<noteq> dquote" using rest by (auto simp: comma_def dquote_def)
  obtain z zs where z: "escapeQuotes f @ dquote # rest = z # zs"
    by (cases "escapeQuotes f") auto
  have "parseLoop (serializeField f @ rest) rows row fld False
      = parseLoop (escapeQuotes f @ dquote # rest) rows row fld True"
    by (simp add: s z)
  then show ?thesis using quoted_field [OF r] by simp
next
  case False
  then have "serializeField f = f"
    by (simp add: serializeField_def Let_def set_escapeQuotes escapeQuotes_plain)
  then show ?thesis using False plain_field by simp
qed

lemma row_roundtrip:
  "parseLoop (join [comma] (map serializeField (v # vs))) rows row [] False = rows @ [row @ v # vs]"
proof (induction vs arbitrary: v row)
  case Nil
  show ?case using field_roundtrip [of "[]" v rows row "[]"] by simp
next
  case (Cons w ws)
  have "parseLoop (join [comma] (map serializeField (v # w # ws))) rows row [] False
      = parseLoop (serializeField v @ comma # join [comma] (map serializeField (w # ws))) rows row [] False"
    by simp
  also have "\<dots> = parseLoop (comma # join [comma] (map serializeField (w # ws))) rows row v False"
    using field_roundtrip [of "comma # join [comma] (map serializeField (w # ws))" v rows row "[]"] by simp
  also have "\<dots> = parseLoop (join [comma] (map serializeField (w # ws))) rows (row @ [v]) [] False"
    by (simp add: comma_def dquote_def)
  also have "\<dots> = rows @ [(row @ [v]) @ w # ws]" by (rule Cons.IH)
  finally show ?case by simp
qed

text \<open>
  Claim C7, as stated, for every row: it fails at the row with no field, which
  serialises to the empty string, and the parser reads the empty content as one row
  holding one empty field.
\<close>

theorem C7_empty_row_counterexample:
  "\<not> (\<forall>vals. parseCsv (serializeCsvRow vals) = [vals])"
proof
  assume "\<forall>vals. parseCsv (serializeCsvRow vals) = [vals]"
  then have "parseCsv (serializeCsvRow []) = [[]]" by blast
  then show False by (simp add: parseCsv_def serializeCsvRow_def)
qed

text \<open>
  Claim C7, amended.  For every row with at least one field, serialising the row and
  parsing the result gives back exactly that one row, field for field; commas, quotes,
  carriage returns and line feeds inside a field included.
\<close>

theorem C7_csv_roundtrip:
  "vals \<noteq> [] \<Longrightarrow> parseCsv (serializeCsvRow vals) = [vals]"
  using row_roundtrip [of "hd vals" "tl vals" "[]" "[]"]
  by (cases vals) (simp_all add: parseCsv_def serializeCsvRow_def)

theorem C7_csv_roundtrip_witness:
  "[''a,b'', [CHR ''x'', dquote, CHR ''y''], [CHR ''l'', LF, CHR ''m'']] \<noteq> []
   \<and> parseCsv (serializeCsvRow [''a,b'', [CHR ''x'', dquote, CHR ''y''], [CHR ''l'', LF, CHR ''m'']])
       = [[''a,b'', [CHR ''x'', dquote, CHR ''y''], [CHR ''l'', LF, CHR ''m'']]]
   \<and> parseCsv (serializeCsvRow [[comma, dquote, LF, CR, dquote]]) = [[[comma, dquote, LF, CR, dquote]]]"
  using C7_csv_roundtrip [of "[''a,b'', [CHR ''x'', dquote, CHR ''y''], [CHR ''l'', LF, CHR ''m'']]"]
    C7_csv_roundtrip [of "[[comma, dquote, LF, CR, dquote]]"]
  by simp

section \<open>Deduplication\<close>

lemma dedupLoop_foldl:
  "\<forall>e\<in>set es. keyExtractor e = Some (key e) \<Longrightarrow>
   dedupLoop keyExtractor es seen = Inr (foldl (dedupStep key) seen es)"
  by (induction es arbitrary: seen) (auto simp: dedupStep_def split: option.splits)

lemma firstSeen_snoc:
  "firstSeen (ks @ [k]) = (if k \<in> set ks then firstSeen ks else firstSeen ks @ [k])"
  by (simp add: firstSeen_def)

lemma set_firstSeen: "set (firstSeen ks) = set ks"
  by (simp add: firstSeen_def)

lemma distinct_firstSeen: "distinct (firstSeen ks)"
  by (simp add: firstSeen_def)

lemma isFirstBest_snoc_other:
  assumes "isFirstBest key es v" and "key e \<noteq> key v \<or> confidence e \<le> confidence v"
  shows "isFirstBest key (es @ [e]) v"
proof -
  from assms(1) obtain i where i: "i < length es" "es ! i = v"
    and b: "\<And>j. j < length es \<Longrightarrow> key (es ! j) = key v \<Longrightarrow>
           (if j < i then confidence (es ! j) < confidence v else confidence (es ! j) \<le> confidence v)"
    unfolding isFirstBest_def by blast
  have "\<forall>j<length (es @ [e]). key ((es @ [e]) ! j) = key v \<longrightarrow>
           (if j < i then confidence ((es @ [e]) ! j) < confidence v
            else confidence ((es @ [e]) ! j) \<le> confidence v)"
  proof (intro allI impI)
    fix j assume j: "j < length (es @ [e])" and k: "key ((es @ [e]) ! j) = key v"
    show "if j < i then confidence ((es @ [e]) ! j) < confidence v
            else confidence ((es @ [e]) ! j) \<le> confidence v"
    proof (cases "j < length es")
      case True
      then show ?thesis using b [of j] k by (simp add: nth_append)
    next
      case False
      then have "j = length es" using j by simp
      then show ?thesis using k assms(2) i(1) by (auto simp: nth_append)
    qed
  qed
  moreover have "i < length (es @ [e])" "(es @ [e]) ! i = v" using i by (simp_all add: nth_append)
  ultimately show ?thesis unfolding isFirstBest_def by blast
qed

lemma isFirstBest_snoc_new:
  assumes "\<And>j. j < length es \<Longrightarrow> key (es ! j) = key e \<Longrightarrow> confidence (es ! j) < confidence e"
  shows "isFirstBest key (es @ [e]) e"
proof -
  have "\<forall>j<length (es @ [e]). key ((es @ [e]) ! j) = key e \<longrightarrow>
           (if j < length es then confidence ((es @ [e]) ! j) < confidence e
            else confidence ((es @ [e]) ! j) \<le> confidence e)"
    using assms by (auto simp: nth_append)
  moreover have "length es < length (es @ [e])" "(es @ [e]) ! length es = e" by simp_all
  ultimately show ?thesis unfolding isFirstBest_def by blast
qed

lemma isFirstBest_max:
  "isFirstBest key es v \<Longrightarrow> j < length es \<Longrightarrow> key (es ! j) = key v \<Longrightarrow> confidence (es ! j) \<le> confidence v"
  unfolding isFirstBest_def by (metis less_le_not_le order_less_imp_le)

lemma dedupInv_step:
  assumes inv: "dedupInv key es seen"
  shows "dedupInv key (es @ [e]) (dedupStep key seen e)"
proof -
  have keys: "map fst seen = firstSeen (map key es)"
    and best: "\<And>k v. map_of seen k = Some v \<Longrightarrow> key v = k \<and> isFirstBest key es v"
    using inv unfolding dedupInv_def by blast+
  have dist: "distinct (map fst seen)" by (simp add: keys distinct_firstSeen)
  have dom: "\<And>k. (map_of seen k = None) = (k \<notin> set (map key es))"
    using keys set_firstSeen [of "map key es"] by (metis map_of_eq_None_iff set_map)
  show ?thesis
  proof (cases "map_of seen (key e)")
    case None
    then have step: "dedupStep key seen e = AList.update (key e) e seen"
      by (simp add: dedupStep_def)
    have notin: "key e \<notin> set (map key es)" using None dom by blast
    have k: "map fst (dedupStep key seen e) = firstSeen (map key (es @ [e]))"
      using notin keys by (simp add: step update_keys firstSeen_snoc set_firstSeen)
    have new: "isFirstBest key (es @ [e]) e"
      using notin by (intro isFirstBest_snoc_new) (metis nth_mem length_map nth_map)
    have b: "\<forall>k v. map_of (dedupStep key seen e) k = Some v \<longrightarrow> key v = k \<and> isFirstBest key (es @ [e]) v"
    proof (intro allI impI)
      fix k v assume m: "map_of (dedupStep key seen e) k = Some v"
      show "key v = k \<and> isFirstBest key (es @ [e]) v"
      proof (cases "k = key e")
        case True
        then have "v = e" using m by (simp add: step update_conv')
        then show ?thesis using True new by simp
      next
        case False
        then have "map_of seen k = Some v" using m by (simp add: step update_conv')
        then have "key v = k" "isFirstBest key es v" using best by blast+
        then show ?thesis using False isFirstBest_snoc_other [of key es v e] by auto
      qed
    qed
    show ?thesis unfolding dedupInv_def using k b by blast
  next
    case (Some ex)
    have exb: "key ex = key e" "isFirstBest key es ex" using best [OF Some] by blast+
    have inks: "key e \<in> set (map key es)" using Some dom by (metis option.distinct(1))
    show ?thesis
    proof (cases "confidence ex < confidence e")
      case True
      then have step: "dedupStep key seen e = AList.update (key e) e seen"
        by (simp add: dedupStep_def Some)
      have "key e \<in> fst ` set seen" using Some by (metis map_of_eq_None_iff option.distinct(1))
      then have k: "map fst (dedupStep key seen e) = firstSeen (map key (es @ [e]))"
        using inks keys by (simp add: step update_keys firstSeen_snoc set_firstSeen)
      have new: "isFirstBest key (es @ [e]) e"
      proof (intro isFirstBest_snoc_new)
        fix j assume "j < length es" "key (es ! j) = key e"
        then have "confidence (es ! j) \<le> confidence ex"
          using isFirstBest_max [OF exb(2), of j] exb(1) by simp
        then show "confidence (es ! j) < confidence e" using True by simp
      qed
      have b: "\<forall>k v. map_of (dedupStep key seen e) k = Some v \<longrightarrow> key v = k \<and> isFirstBest key (es @ [e]) v"
      proof (intro allI impI)
        fix k v assume m: "map_of (dedupStep key seen e) k = Some v"
        show "key v = k \<and> isFirstBest key (es @ [e]) v"
        proof (cases "k = key e")
          case True
          then have "v = e" using m by (simp add: step update_conv')
          then show ?thesis using True new by simp
        next
          case False
          then have "map_of seen k = Some v" using m by (simp add: step update_conv')
          then have "key v = k" "isFirstBest key es v" using best by blast+
          then show ?thesis using False isFirstBest_snoc_other [of key es v e] by auto
        qed
      qed
      show ?thesis unfolding dedupInv_def using k b by blast
    next
      case False
      then have step: "dedupStep key seen e = seen"
        by (simp add: dedupStep_def Some)
      have k: "map fst (dedupStep key seen e) = firstSeen (map key (es @ [e]))"
        using inks keys by (simp add: step firstSeen_snoc)
      have b: "\<forall>k v. map_of (dedupStep key seen e) k = Some v \<longrightarrow> key v = k \<and> isFirstBest key (es @ [e]) v"
      proof (intro allI impI)
        fix k v assume m: "map_of (dedupStep key seen e) k = Some v"
        then have kv: "key v = k" "isFirstBest key es v" using best by (simp_all add: step)
        have "key e \<noteq> key v \<or> confidence e \<le> confidence v"
        proof (cases "k = key e")
          case True
          then have "v = ex" using m Some by (simp add: step)
          then show ?thesis using False by simp
        next
          case False
          then show ?thesis using kv by simp
        qed
        then show "key v = k \<and> isFirstBest key (es @ [e]) v"
          using kv isFirstBest_snoc_other [of key es v e] by simp
      qed
      show ?thesis unfolding dedupInv_def using k b by blast
    qed
  qed
qed

lemma dedupInv_foldl: "dedupInv key es (foldl (dedupStep key) [] es)"
proof (induction es rule: rev_induct)
  case Nil
  show ?case by (simp add: dedupInv_def firstSeen_def)
next
  case (snoc e es)
  then show ?case using dedupInv_step [of key es _ e] by simp
qed

lemma deduplicateByKey_spec:
  assumes "\<forall>e\<in>set es. keyExtractor e = Some (key e)"
  shows "\<exists>r. deduplicateByKey es keyExtractor = Inr r
           \<and> map key r = firstSeen (map key es)
           \<and> (\<forall>v\<in>set r. isFirstBest key es v)"
proof -
  define seen where "seen = foldl (dedupStep key) [] es"
  have inv: "dedupInv key es seen" unfolding seen_def by (rule dedupInv_foldl)
  have r: "deduplicateByKey es keyExtractor = Inr (map snd seen)"
    by (simp add: deduplicateByKey_def dedupLoop_foldl [OF assms] seen_def)
  have keys: "map fst seen = firstSeen (map key es)" using inv by (simp add: dedupInv_def)
  then have dist: "distinct (map fst seen)" by (simp add: distinct_firstSeen)
  have each: "\<And>k v. (k, v) \<in> set seen \<Longrightarrow> key v = k \<and> isFirstBest key es v"
    using inv dist unfolding dedupInv_def by (metis map_of_is_SomeI)
  have "map key (map snd seen) = map fst seen"
    using each by (auto intro!: nth_equalityI simp: in_set_conv_nth)
  moreover have "\<forall>v\<in>set (map snd seen). isFirstBest key es v" using each by auto
  ultimately show ?thesis using r keys by simp
qed

lemma deduplicateByKey_cong:
  assumes "\<forall>e\<in>set xs. f e = g e"
  shows "deduplicateByKey xs f = deduplicateByKey xs g"
proof -
  have "dedupLoop f xs seen = dedupLoop g xs seen" for seen
    using assms by (induction xs arbitrary: seen) (auto split: option.splits)
  then show ?thesis by (simp add: deduplicateByKey_def)
qed

lemma removeDuplicates_UNSTRUCTURED:
  "removeDuplicates localeCompare config es ''UNSTRUCTURED'' =
     deduplicateByKey (filter (matchesShape ''UNSTRUCTURED'') es)
       (\<lambda>e. if matchesShape ''UNSTRUCTURED'' e
            then Some (identityKey localeCompare config ''UNSTRUCTURED'' e) else None)"
  unfolding removeDuplicates_def
  by (simp add: matchesShape_def [abs_def])
    (rule deduplicateByKey_cong, auto simp: identityKey_def isUnstructuredSensitiveEntity_def)

lemma removeDuplicates_SPREADSHEET:
  "removeDuplicates localeCompare config es ''SPREADSHEET'' =
     deduplicateByKey (filter (matchesShape ''SPREADSHEET'') es)
       (\<lambda>e. if matchesShape ''SPREADSHEET'' e
            then Some (identityKey localeCompare config ''SPREADSHEET'' e) else None)"
  unfolding removeDuplicates_def
  by (simp add: matchesShape_def [abs_def])
    (rule deduplicateByKey_cong, auto simp: identityKey_def isSpreadsheetSensitiveEntity_def
      normalizeRanges_def)

lemma removeDuplicates_JSON:
  "removeDuplicates localeCompare config es ''JSON'' =
     deduplicateByKey (filter (matchesShape ''JSON'') es)
       (\<lambda>e. if matchesShape ''JSON'' e
            then Some (identityKey localeCompare config ''JSON'' e) else None)"
  unfolding removeDuplicates_def
  by (simp add: matchesShape_def [abs_def])
    (rule deduplicateByKey_cong, auto simp: identityKey_def isStructuredSensitiveEntity_def)

lemma removeDuplicates_CSV:
  "removeDuplicates localeCompare config es ''CSV'' =
     deduplicateByKey (filter (matchesShape ''CSV'') es)
       (\<lambda>e. if matchesShape ''CSV'' e
            then Some (identityKey localeCompare config ''CSV'' e) else None)"
  unfolding removeDuplicates_def
  by (simp add: matchesShape_def [abs_def])
    (rule deduplicateByKey_cong, auto simp: identityKey_def isStructuredSensitiveEntity_def)

lemma removeDuplicates_recognized:
  assumes "recognized analysisType"
  shows "removeDuplicates localeCompare config es analysisType =
         deduplicateByKey (filter (matchesShape analysisType) es)
           (\<lambda>e. if matchesShape analysisType e
                then Some (identityKey localeCompare config analysisType e) else None)"
proof -
  consider "analysisType = ''UNSTRUCTURED''" | "analysisType = ''SPREADSHEET''"
    | "analysisType = ''JSON''" | "analysisType = ''CSV''"
    using assms by (auto simp: recognized_def)
  then show ?thesis
  proof cases
    case 1 show ?thesis unfolding 1 by (rule removeDuplicates_UNSTRUCTURED)
  next
    case 2 show ?thesis unfolding 2 by (rule removeDuplicates_SPREADSHEET)
  next
    case 3 show ?thesis unfolding 3 by (rule removeDuplicates_JSON)
  next
    case 4 show ?thesis unfolding 4 by (rule removeDuplicates_CSV)
  qed
qed

lemma removeDuplicates_spec:
  assumes "recognized analysisType"
  shows "\<exists>r. removeDuplicates localeCompare config es analysisType = Inr r
           \<and> map (identityKey localeCompare config analysisType) r
               = firstSeen (map (identityKey localeCompare config analysisType)
                   (filter (matchesShape analysisType) es))
           \<and> (\<forall>v\<in>set r. isFirstBest (identityKey localeCompare config analysisType)
                   (filter (matchesShape analysisType) es) v)"
  unfolding removeDuplicates_recognized [OF assms]
  by (rule deduplicateByKey_spec) simp

lemma isFirstBest_mem: "isFirstBest key es v \<Longrightarrow> v \<in> set es"
  unfolding isFirstBest_def by auto

lemma matchesShape_variant:
  assumes "recognized analysisType" "isSensitiveEntity e"
  shows "matchesShape analysisType e = hasVariant (variantFor analysisType) e"
proof -
  consider "analysisType = ''UNSTRUCTURED''" | "analysisType = ''SPREADSHEET''"
    | "analysisType = ''JSON''" | "analysisType = ''CSV''"
    using assms(1) by (auto simp: recognized_def)
  then show ?thesis
  proof cases
    case 1
    show ?thesis using assms(2) unfolding 1
      by (auto simp: isSensitiveEntity_def hasVariant_def matchesShape_def variantFor_def
          isUnstructuredSensitiveEntity_def)
  next
    case 2
    show ?thesis using assms(2) unfolding 2
      by (auto simp: isSensitiveEntity_def hasVariant_def matchesShape_def variantFor_def
          isSpreadsheetSensitiveEntity_def)
  next
    case 3
    show ?thesis using assms(2) unfolding 3
      by (auto simp: isSensitiveEntity_def hasVariant_def matchesShape_def variantFor_def
          isStructuredSensitiveEntity_def)
  next
    case 4
    show ?thesis using assms(2) unfolding 4
      by (auto simp: isSensitiveEntity_def hasVariant_def matchesShape_def variantFor_def
          isStructuredSensitiveEntity_def)
  qed
qed

text \<open>
  Claim C5.  For every list of entities, each a member of the union \<open>SensitiveEntity\<close>,
  and every recognised analysis type, \<open>removeDuplicates\<close> returns, for the entities of
  the variant that belongs to the analysis type, one entity per distinct identity key,
  the keys in the order in which they were first seen; the entity kept for a key is the
  first of those with the highest confidence for that key (a later entity replaces the
  kept one only on a strictly higher confidence).
\<close>

theorem C5_dedup:
  assumes "recognized analysisType" and "\<forall>e\<in>set es. isSensitiveEntity e"
  shows "\<exists>r. removeDuplicates localeCompare config es analysisType = Inr r
      \<and> map (identityKey localeCompare config analysisType) r
          = firstSeen (map (identityKey localeCompare config analysisType)
              (filter (hasVariant (variantFor analysisType)) es))
      \<and> distinct (map (identityKey localeCompare config analysisType) r)
      \<and> (\<forall>v\<in>set r. isFirstBest (identityKey localeCompare config analysisType)
              (filter (hasVariant (variantFor analysisType)) es) v)"
proof -
  have "filter (matchesShape analysisType) es = filter (hasVariant (variantFor analysisType)) es"
    using assms by (intro filter_cong refl matchesShape_variant) auto
  then show ?thesis
    using removeDuplicates_spec [OF assms(1), of localeCompare config es]
    by (metis distinct_firstSeen)
qed


theorem C5_dedup_witness:
  "recognized ''JSON'' \<and> list_all isSensitiveEntity structuredEntities
   \<and> removeDuplicates codeUnitCompare defaultDeduplicationConfig structuredEntities ''JSON''
       = Inr [(pathEntity ''user.email'' 9)\<lparr>rankHex := ''0x2''\<rparr>, pathEntity ''user.name'' 7,
              pathEntity ''User.email'' 6]
   \<and> removeDuplicates codeUnitCompare defaultDeduplicationConfig structuredEntities ''CSV''
       = Inr [(pathEntity ''user.email'' 9)\<lparr>rankHex := ''0x2''\<rparr>, pathEntity ''user.name'' 7,
              pathEntity ''User.email'' 6]
   \<and> removeDuplicates codeUnitCompare defaultDeduplicationConfig mixedEntities ''UNSTRUCTURED''
       = Inr [textEntity ''john@x.com'' 9, textEntity ''other'' 7]
   \<and> firstSeen (map (identityKey codeUnitCompare defaultDeduplicationConfig ''JSON'')
         (filter (hasVariant (variantFor ''JSON'')) structuredEntities))
       = [''user.email'', ''user.name'', ''User.email'']
   \<and> isFirstBest (identityKey codeUnitCompare defaultDeduplicationConfig ''JSON'')
         (filter (hasVariant (variantFor ''JSON'')) structuredEntities)
         ((pathEntity ''user.email'' 9)\<lparr>rankHex := ''0x2''\<rparr>)"
proof -
  have rec: "recognized ''JSON''" by (simp add: recognized_def)
  have wf: "list_all isSensitiveEntity structuredEntities" by code_simp
  have ev: "removeDuplicates codeUnitCompare defaultDeduplicationConfig structuredEntities ''JSON''
       = Inr [(pathEntity ''user.email'' 9)\<lparr>rankHex := ''0x2''\<rparr>, pathEntity ''user.name'' 7,
              pathEntity ''User.email'' 6]"
    by code_simp
  have csv: "removeDuplicates codeUnitCompare defaultDeduplicationConfig structuredEntities ''CSV''
       = Inr [(pathEntity ''user.email'' 9)\<lparr>rankHex := ''0x2''\<rparr>, pathEntity ''user.name'' 7,
              pathEntity ''User.email'' 6]"
    by code_simp
  have un: "removeDuplicates codeUnitCompare defaultDeduplicationConfig mixedEntities ''UNSTRUCTURED''
       = Inr [textEntity ''john@x.com'' 9, textEntity ''other'' 7]"
    by code_simp
  have keys: "map (identityKey codeUnitCompare defaultDeduplicationConfig ''JSON'')
        [(pathEntity ''user.email'' 9)\<lparr>rankHex := ''0x2''\<rparr>, pathEntity ''user.name'' 7,
         pathEntity ''User.email'' 6]
      = [''user.email'', ''user.name'', ''User.email'']"
    by code_simp
  show ?thesis
    using C5_dedup [OF rec, of structuredEntities codeUnitCompare defaultDeduplicationConfig]
      wf rec csv un keys
    by (simp add: ev list_all_iff)
qed

lemma filter_dropped: "(length (filter P xs) \<noteq> length xs) = (\<exists>x\<in>set xs. \<not> P x)"
  by (induction xs) (auto simp: le_imp_less_Suc [OF length_filter_le] less_imp_neq)

text \<open>
  Claim C9.  \<open>removeDuplicates\<close> never throws.  For a recognised analysis type, the
  entities whose variant does not match take no part: every entity returned matches,
  and the result is the one obtained from the matching entities alone.  For any other
  analysis type the input list is returned as it is.  The exclusion leaves no trace
  but a console warning, issued outside the test environment only.
\<close>

theorem C9_mismatch_and_unknown:
  "\<exists>r. removeDuplicates localeCompare config es analysisType = Inr r
      \<and> (if recognized analysisType
         then set r \<subseteq> set (filter (matchesShape analysisType) es)
              \<and> removeDuplicates localeCompare config (filter (matchesShape analysisType) es) analysisType
                  = Inr r
         else r = es)
      \<and> (mismatchWarning isTest es analysisType \<noteq> None)
          = (recognized analysisType \<and> (\<exists>e\<in>set es. \<not> matchesShape analysisType e) \<and> \<not> isTest)"
proof -
  have w: "(mismatchWarning isTest es analysisType \<noteq> None)
          = (recognized analysisType \<and> (\<exists>e\<in>set es. \<not> matchesShape analysisType e) \<and> \<not> isTest)"
    by (auto simp: mismatchWarning_def recognized_def matchesShape_def Let_def filter_dropped)
  show ?thesis
  proof (cases "recognized analysisType")
    case True
    obtain r where r: "removeDuplicates localeCompare config es analysisType = Inr r"
      and b: "\<forall>v\<in>set r. isFirstBest (identityKey localeCompare config analysisType)
                     (filter (matchesShape analysisType) es) v"
      using removeDuplicates_spec [OF True] by blast
    have "set r \<subseteq> set (filter (matchesShape analysisType) es)"
      using b isFirstBest_mem by blast
    moreover have "removeDuplicates localeCompare config (filter (matchesShape analysisType) es) analysisType
        = removeDuplicates localeCompare config es analysisType"
      by (simp add: removeDuplicates_recognized [OF True])
    ultimately show ?thesis using True r w by simp
  next
    case False
    then show ?thesis using w by (simp add: removeDuplicates_def recognized_def)
  qed
qed

theorem C9_mismatch_and_unknown_witness:
  "recognized ''UNSTRUCTURED'' \<and> \<not> recognized ''UNKNOWN''
   \<and> removeDuplicates codeUnitCompare defaultDeduplicationConfig
        [textEntity ''john@example.com'' 8, sheetEntity [''A1:A5''] 9] ''UNSTRUCTURED''
       = Inr [textEntity ''john@example.com'' 8]
   \<and> removeDuplicates codeUnitCompare defaultDeduplicationConfig
        [textEntity ''john@example.com'' 8, textEntity ''john@example.com'' 8] ''UNKNOWN''
       = Inr [textEntity ''john@example.com'' 8, textEntity ''john@example.com'' 8]
   \<and> mismatchWarning False [textEntity ''john@example.com'' 8, sheetEntity [''A1:A5''] 9]
        ''UNSTRUCTURED''
       = Some ''Expected 2 unstructured entities, but only 1 matched the type''
   \<and> mismatchWarning True [textEntity ''john@example.com'' 8, sheetEntity [''A1:A5''] 9]
        ''UNSTRUCTURED'' = None"
proof -
  have rec: "recognized ''UNSTRUCTURED''" "\<not> recognized ''UNKNOWN''"
    by (simp_all add: recognized_def)
  have wf: "mismatchWarning False [textEntity ''john@example.com'' 8, sheetEntity [''A1:A5''] 9]
        ''UNSTRUCTURED''
       = Some ''Expected 2 unstructured entities, but only 1 matched the type''"
    by code_simp
  have wt: "mismatchWarning True [textEntity ''john@example.com'' 8, sheetEntity [''A1:A5''] 9]
        ''UNSTRUCTURED'' = None"
    by code_simp
  have m: "filter (matchesShape ''UNSTRUCTURED'')
        [textEntity ''john@example.com'' 8, sheetEntity [''A1:A5''] 9]
      = [textEntity ''john@example.com'' 8]"
    by (simp add: matchesShape_def isUnstructuredSensitiveEntity_def textEntity_def
        sheetEntity_def baseEntity_def)
  have one: "removeDuplicates codeUnitCompare defaultDeduplicationConfig
        [textEntity ''john@example.com'' 8] ''UNSTRUCTURED'' = Inr [textEntity ''john@example.com'' 8]"
    by (simp add: removeDuplicates_def deduplicateByKey_def isUnstructuredSensitiveEntity_def
        textEntity_def baseEntity_def)
  show ?thesis
    using C9_mismatch_and_unknown [of codeUnitCompare defaultDeduplicationConfig
        "[textEntity ''john@example.com'' 8, sheetEntity [''A1:A5''] 9]" "''UNSTRUCTURED''" True,
        unfolded m one]
      C9_mismatch_and_unknown [of codeUnitCompare defaultDeduplicationConfig
        "[textEntity ''john@example.com'' 8, textEntity ''john@example.com'' 8]" "''UNKNOWN''" True]
      rec wf wt
    by (simp split: if_splits)
qed

subsection \<open>Spreadsheet keys do not depend on the order of the ranges\<close>













section \<open>Unstructured chunking\<close>

lemma chunkLoop_spec:
  assumes "1 \<le> step" "step \<le> size'"
  shows "0 \<le> start \<Longrightarrow> start < int (length str) \<Longrightarrow>
    \<exists>n. chunkLoop clock analysisType str size' step start chunks
          = Some (chunks @ map (windowChunk clock analysisType str size' step start (length chunks)) [0..<Suc n])
        \<and> (\<forall>i<n. start + int i * step + size' < int (length str))
        \<and> int (length str) \<le> start + int n * step + size'
        \<and> start + int n * step < int (length str)"
proof (induction "nat (int (length str) - start)" arbitrary: start chunks rule: less_induct)
  case less
  let ?L = "int (length str)"
  let ?c = "windowChunk clock analysisType str size' step start (length chunks) 0"
  show ?case
  proof (cases "?L \<le> start + size'")
    case True
    have "chunkLoop clock analysisType str size' step start chunks = Some (chunks @ [?c])"
      using less.prems True
      by (subst chunkLoop.simps) (simp add: Let_def windowChunk_def min_def)
    then show ?thesis using True less.prems by (intro exI [of _ 0]) simp
  next
    case False
    then have lt: "start + size' < ?L" by simp
    have next_lt: "start + step < ?L" "0 \<le> start + step" using lt assms less.prems by simp_all
    have unfold: "chunkLoop clock analysisType str size' step start chunks
        = chunkLoop clock analysisType str size' step (start + step) (chunks @ [?c])"
      using less.prems lt
      by (subst chunkLoop.simps) (simp add: Let_def windowChunk_def min_def)
    have "nat (?L - (start + step)) < nat (?L - start)" using assms less.prems by simp
    from less.hyps [OF this next_lt(2) next_lt(1), of "chunks @ [?c]"]
    obtain n where n: "chunkLoop clock analysisType str size' step (start + step) (chunks @ [?c])
          = Some ((chunks @ [?c]) @ map (windowChunk clock analysisType str size' step (start + step)
                (length (chunks @ [?c]))) [0..<Suc n])"
      and b: "\<forall>i<n. start + step + int i * step + size' < ?L"
      and e: "?L \<le> start + step + int n * step + size'"
      and l: "start + step + int n * step < ?L"
      by blast
    have shift: "windowChunk clock analysisType str size' step (start + step) (length (chunks @ [?c])) i
        = windowChunk clock analysisType str size' step start (length chunks) (Suc i)" for i
      by (simp add: windowChunk_def algebra_simps)
    have "map (windowChunk clock analysisType str size' step start (length chunks)) [0..<Suc (Suc n)]
        = ?c # map (windowChunk clock analysisType str size' step (start + step)
                (length (chunks @ [?c]))) [0..<Suc n]"
      unfolding shift by (simp add: upt_rec [of 0] map_Suc_upt [symmetric] del: upt_Suc)
    then have r: "chunkLoop clock analysisType str size' step start chunks
        = Some (chunks @ map (windowChunk clock analysisType str size' step start (length chunks))
            [0..<Suc (Suc n)])"
      using unfold n by simp
    have b': "\<forall>i<Suc n. start + int i * step + size' < ?L"
    proof (intro allI impI)
      fix i assume "i < Suc n"
      show "start + int i * step + size' < ?L"
      proof (cases i)
        case 0 then show ?thesis using lt by simp
      next
        case (Suc j)
        then have "j < n" using \<open>i < Suc n\<close> by simp
        then show ?thesis using b Suc by (simp add: algebra_simps)
      qed
    qed
    have e': "?L \<le> start + int (Suc n) * step + size'" using e by (simp add: algebra_simps)
    have l': "start + int (Suc n) * step < ?L" using l by (simp add: algebra_simps)
    show ?thesis using r b' e' l' by blast
  qed
qed

lemma clamp_facts:
  "1 \<le> effectiveStep options" "effectiveStep options \<le> effectiveSize options"
  "1 \<le> effectiveSize options"
  by (simp_all add: effectiveStep_def effectiveSize_def)

lemma chunkUnstructured_shape:
  "\<exists>n. chunkUnstructured clock options str analysisType
        = Some (map (windowChunk clock analysisType str (effectiveSize options) (effectiveStep options) 0 0)
            [0..<Suc n])
      \<and> (\<forall>i<n. int i * effectiveStep options + effectiveSize options < int (length str))
      \<and> (str = [] \<or> int (length str) \<le> int n * effectiveStep options + effectiveSize options)
      \<and> (int n * effectiveStep options < int (length str) \<or> (str = [] \<and> n = 0))"
proof (cases "str = []")
  case True
  have "chunkUnstructured clock options str analysisType
        = Some (map (windowChunk clock analysisType str (effectiveSize options) (effectiveStep options) 0 0)
            [0..<Suc 0])"
    using True by (simp add: chunkUnstructured_def Let_def windowChunk_def slice_def)
  then show ?thesis using True by (intro exI [of _ 0]) simp
next
  case False
  then have pos: "(0::int) < int (length str)" by simp
  have u: "chunkUnstructured clock options str analysisType
      = chunkLoop clock analysisType str (effectiveSize options) (effectiveStep options) 0 []"
    using False by (simp add: chunkUnstructured_def Let_def effectiveSize_def effectiveStep_def)
  have "\<exists>n. chunkLoop clock analysisType str (effectiveSize options) (effectiveStep options) 0 []
          = Some ([] @ map (windowChunk clock analysisType str (effectiveSize options)
                (effectiveStep options) 0 (length ([] :: ChunkData list))) [0..<Suc n])
        \<and> (\<forall>i<n. 0 + int i * effectiveStep options + effectiveSize options < int (length str))
        \<and> int (length str) \<le> 0 + int n * effectiveStep options + effectiveSize options
        \<and> 0 + int n * effectiveStep options < int (length str)"
    using pos by (intro chunkLoop_spec clamp_facts) simp_all
  then show ?thesis unfolding u using False by auto
qed

lemma length_slice:
  "0 \<le> a \<Longrightarrow> a \<le> b \<Longrightarrow> b \<le> int (length xs) \<Longrightarrow> length (slice xs a b) = nat (b - a)"
  by (auto simp: slice_def Let_def min_def)

lemma chunkRange_window:
  assumes "0 \<le> int i * step" "int i * step \<le> int (length str)" "0 \<le> size'"
  shows "chunkRange (windowChunk clock analysisType str size' step 0 0 i)
       = {int i * step ..< min (int (length str)) (int i * step + size')}"
proof -
  have "length (slice str (int i * step) (min (int (length str)) (int i * step + size')))
      = nat (min (int (length str)) (int i * step + size') - int i * step)"
    using assms by (intro length_slice) simp_all
  then show ?thesis using assms by (simp add: chunkRange_def windowChunk_def)
qed

lemma window_text:
  assumes "0 \<le> int i * step" "int i * step \<le> int (length str)" "0 \<le> size'"
  shows "c_text (windowChunk clock analysisType str size' step 0 0 i)
       = slice str (c_offset (windowChunk clock analysisType str size' step 0 0 i))
           (c_offset (windowChunk clock analysisType str size' step 0 0 i)
            + int (length (c_text (windowChunk clock analysisType str size' step 0 0 i))))"
proof -
  have "length (slice str (int i * step) (min (int (length str)) (int i * step + size')))
      = nat (min (int (length str)) (int i * step + size') - int i * step)"
    using assms by (intro length_slice) simp_all
  then show ?thesis using assms by (simp add: windowChunk_def)
qed

text \<open>The windows of a run of the loop: positions, coverage and overlap.\<close>

lemma windows_cover:
  fixes step size' :: int and L :: int
  assumes step: "1 \<le> step" "step \<le> size'"
    and inner: "\<forall>i<n. int i * step + size' < L"
    and last: "L \<le> int n * step + size'" "int n * step < L"
  shows "(\<Union>i\<in>{..n}. {int i * step ..< min L (int i * step + size')}) = {0..<L}"
proof (intro set_eqI iffI)
  fix x assume "x \<in> (\<Union>i\<in>{..n}. {int i * step ..< min L (int i * step + size')})"
  then obtain i where "i \<le> n" "int i * step \<le> x" "x < L" by auto
  moreover have "0 \<le> int i * step" using step by simp
  ultimately show "x \<in> {0..<L}" by simp
next
  fix x assume "x \<in> {0..<L}"
  then have x: "0 \<le> x" "x < L" by simp_all
  define i where "i = min (nat (x div step)) n"
  have sp: "0 < step" using step by simp
  have "x div step * step + x mod step = x" by simp
  moreover have "0 \<le> x mod step" "x mod step < step" using sp by simp_all
  ultimately have dv: "(x div step) * step \<le> x" "x < (x div step) * step + step"
    by linarith+
  have nn: "0 \<le> x div step" using x sp by (simp add: pos_imp_zdiv_nonneg_iff)
  have "x \<in> {int i * step ..< min L (int i * step + size')}"
  proof (cases "nat (x div step) < n")
    case True
    then have i: "i = nat (x div step)" by (simp add: i_def)
    then have "int i = x div step" using nn by simp
    then show ?thesis using dv step inner True i x by auto
  next
    case False
    then have i: "i = n" by (simp add: i_def)
    have "int n \<le> x div step" using False nn by linarith
    then have "int n * step \<le> (x div step) * step" using sp by (simp add: mult_right_mono)
    then have "int n * step \<le> x" using dv(1) by linarith
    then show ?thesis using last x i by auto
  qed
  moreover have "i \<le> n" by (simp add: i_def)
  ultimately show "x \<in> (\<Union>i\<in>{..n}. {int i * step ..< min L (int i * step + size')})" by blast
qed

lemma shape_ranges:
  assumes shape: "cs = map (windowChunk clock analysisType str (effectiveSize options) (effectiveStep options) 0 0)
            [0..<Suc n]"
    and inner: "\<forall>i<n. int i * effectiveStep options + effectiveSize options < int (length str)"
    and last: "int n * effectiveStep options < int (length str) \<or> (str = [] \<and> n = 0)"
    and i: "i \<le> n"
  shows "cs ! i = windowChunk clock analysisType str (effectiveSize options) (effectiveStep options) 0 0 i"
    and "chunkRange (cs ! i) = {int i * effectiveStep options
            ..< min (int (length str)) (int i * effectiveStep options + effectiveSize options)}"
    and "c_text (cs ! i) = slice str (c_offset (cs ! i)) (c_offset (cs ! i) + int (length (c_text (cs ! i))))"
    and "c_offset (cs ! i) = int i * effectiveStep options"
proof -
  show nth: "cs ! i = windowChunk clock analysisType str (effectiveSize options) (effectiveStep options) 0 0 i"
    using i unfolding shape by (simp add: nth_append less_Suc_eq_le del: upt_Suc)
  have a: "0 \<le> int i * effectiveStep options" using clamp_facts(1) [of options] by simp
  have b: "int i * effectiveStep options \<le> int (length str)"
  proof (cases "i < n")
    case True
    then show ?thesis using inner clamp_facts(3) [of options] by (smt (verit))
  next
    case False
    then have "i = n" using i by simp
    then show ?thesis using last by auto
  qed
  have c: "0 \<le> effectiveSize options" using clamp_facts(3) [of options] by simp
  show "chunkRange (cs ! i) = {int i * effectiveStep options
            ..< min (int (length str)) (int i * effectiveStep options + effectiveSize options)}"
    unfolding nth by (rule chunkRange_window [OF a b c])
  show "c_text (cs ! i) = slice str (c_offset (cs ! i)) (c_offset (cs ! i) + int (length (c_text (cs ! i))))"
    unfolding nth by (rule window_text [OF a b c])
  show "c_offset (cs ! i) = int i * effectiveStep options"
    unfolding nth by (simp add: windowChunk_def)
qed

lemma chunkUnstructured_properties:
  "\<exists>cs. chunkUnstructured clock options str analysisType = Some cs
     \<and> cs \<noteq> []
     \<and> (\<Union>c\<in>set cs. chunkRange c) = {0..<int (length str)}
     \<and> (\<forall>c\<in>set cs. c_text c = slice str (c_offset c) (c_offset c + int (length (c_text c))))
     \<and> (\<forall>i. Suc i < length cs \<longrightarrow>
           c_offset (cs ! Suc i) = c_offset (cs ! i) + effectiveStep options
           \<and> card (chunkRange (cs ! i) \<inter> chunkRange (cs ! Suc i))
               = nat (effectiveSize options - effectiveStep options))"
proof -
  let ?st = "effectiveStep options" and ?sz = "effectiveSize options" and ?L = "int (length str)"
  let ?w = "windowChunk clock analysisType str ?sz ?st 0 0"
  obtain n where r: "chunkUnstructured clock options str analysisType = Some (map ?w [0..<Suc n])"
    and inner: "\<forall>i<n. int i * ?st + ?sz < ?L"
    and e: "str = [] \<or> ?L \<le> int n * ?st + ?sz"
    and last: "int n * ?st < ?L \<or> (str = [] \<and> n = 0)"
    using chunkUnstructured_shape [of clock options str analysisType] by blast
  define cs where "cs = map ?w [0..<Suc n]"
  have len: "length cs = Suc n" by (simp add: cs_def)
  note sr = shape_ranges [OF cs_def inner last]
  have setcs: "set cs = (\<lambda>i. cs ! i) ` {..n}"
    using len by (auto simp: set_conv_nth less_Suc_eq_le image_iff)
  have un: "(\<Union>c\<in>set cs. chunkRange c) = (\<Union>i\<in>{..n}. {int i * ?st ..< min ?L (int i * ?st + ?sz)})"
    unfolding setcs using sr(2) by simp
  have cover: "(\<Union>c\<in>set cs. chunkRange c) = {0..<?L}"
  proof (cases "str = []")
    case True
    have "0 \<le> int n * ?st" using clamp_facts(1) [of options] by simp
    then have "n = 0" using last True by auto
    then show ?thesis unfolding un using True by simp
  next
    case False
    then show ?thesis unfolding un
      using windows_cover [OF clamp_facts(1) clamp_facts(2) inner] e last by simp
  qed
  have texts: "\<forall>c\<in>set cs. c_text c = slice str (c_offset c) (c_offset c + int (length (c_text c)))"
    unfolding setcs using sr(3) by blast
  have pairs: "\<forall>i. Suc i < length cs \<longrightarrow>
           c_offset (cs ! Suc i) = c_offset (cs ! i) + ?st
           \<and> card (chunkRange (cs ! i) \<inter> chunkRange (cs ! Suc i)) = nat (?sz - ?st)"
  proof (intro allI impI)
    fix i assume "Suc i < length cs"
    then have i: "i < n" "i \<le> n" "Suc i \<le> n" using len by simp_all
    have lt: "int i * ?st + ?sz < ?L" using inner i(1) by simp
    then have "min ?L (int i * ?st + ?sz) = int i * ?st + ?sz" by simp
    then have ri: "chunkRange (cs ! i) = {int i * ?st ..< int i * ?st + ?sz}"
      using sr(2) [OF i(2)] by simp
    have rs: "chunkRange (cs ! Suc i) = {int i * ?st + ?st ..< min ?L (int i * ?st + ?st + ?sz)}"
      using sr(2) [OF i(3)] by (simp add: algebra_simps)
    have "int i * ?st + ?sz < ?L" using inner i(1) by simp
    moreover have "1 \<le> ?st" "?st \<le> ?sz" by (rule clamp_facts)+
    ultimately have "chunkRange (cs ! i) \<inter> chunkRange (cs ! Suc i)
        = {int i * ?st + ?st ..< int i * ?st + ?sz}"
      unfolding ri rs by auto
    then have "card (chunkRange (cs ! i) \<inter> chunkRange (cs ! Suc i)) = nat (?sz - ?st)"
      by simp
    moreover have "c_offset (cs ! Suc i) = c_offset (cs ! i) + ?st"
      using sr(4) [OF i(2)] sr(4) [OF i(3)] by (simp add: algebra_simps)
    ultimately show "c_offset (cs ! Suc i) = c_offset (cs ! i) + ?st
           \<and> card (chunkRange (cs ! i) \<inter> chunkRange (cs ! Suc i)) = nat (?sz - ?st)"
      by simp
  qed
  have "cs \<noteq> []" using len by auto
  then show ?thesis using r cover texts pairs unfolding cs_def [symmetric] by blast
qed

lemma createChunks_UNSTRUCTURED:
  "createChunks clock js options ''UNSTRUCTURED'' content
     = map_option Inr (chunkUnstructured clock options content ''UNSTRUCTURED'')"
  by (simp add: createChunks_def)

lemma overlap_when_smaller:
  "overlap options < chunkSize options \<Longrightarrow>
   effectiveSize options - effectiveStep options = max 0 (overlap options)"
  by (auto simp: effectiveSize_def effectiveStep_def max_def)

text \<open>
  Claim C1, as stated: with \<open>O < S\<close>, consecutive chunks (the last pair apart) overlap
  by \<open>min O S\<close> characters.  It fails for a negative overlap, which the source clamps
  to 0: with \<open>S = 2\<close> and \<open>O = -1\<close> the chunks of \<open>abcde\<close> are \<open>ab\<close>, \<open>cd\<close>, \<open>e\<close>, and
  the first two share no character, where \<open>min O S = -1\<close>.
\<close>

theorem C1_negative_overlap_counterexample:
  "\<not> (\<forall>clock js options content.
        overlap options < chunkSize options \<longrightarrow>
        (\<exists>cs. createChunks clock js options ''UNSTRUCTURED'' content = Some (Inr cs)
           \<and> (\<Union>c\<in>set cs. chunkRange c) = {0..<int (length content)}
           \<and> (\<forall>i. Suc (Suc i) < length cs \<longrightarrow>
                 int (card (chunkRange (cs ! i) \<inter> chunkRange (cs ! Suc i)))
                   = min (overlap options) (chunkSize options))))"
proof
  assume a: "\<forall>clock js options content.
        overlap options < chunkSize options \<longrightarrow>
        (\<exists>cs. createChunks clock js options ''UNSTRUCTURED'' content = Some (Inr cs)
           \<and> (\<Union>c\<in>set cs. chunkRange c) = {0..<int (length content)}
           \<and> (\<forall>i. Suc (Suc i) < length cs \<longrightarrow>
                 int (card (chunkRange (cs ! i) \<inter> chunkRange (cs ! Suc i)))
                   = min (overlap options) (chunkSize options)))"
  let ?o = "\<lparr>chunkSize = 2, overlap = - 1, columnChunkSize = 4\<rparr>"
  have ev: "createChunks (\<lambda>i. 0) sampleJson ?o ''UNSTRUCTURED'' ''abcde''
      = Some (Inr [sampleChunk 0 ''ab'' 0, sampleChunk 1 ''cd'' 2, sampleChunk 2 ''e'' 4])"
    by code_simp
  have "overlap ?o < chunkSize ?o" by simp
  with a obtain cs where cs: "createChunks (\<lambda>i. 0) sampleJson ?o ''UNSTRUCTURED'' ''abcde'' = Some (Inr cs)"
    and p: "\<forall>i. Suc (Suc i) < length cs \<longrightarrow>
                 int (card (chunkRange (cs ! i) \<inter> chunkRange (cs ! Suc i)))
                   = min (overlap ?o) (chunkSize ?o)"
    by blast
  have "cs = [sampleChunk 0 ''ab'' 0, sampleChunk 1 ''cd'' 2, sampleChunk 2 ''e'' 4]"
    using cs unfolding ev by simp
  then have "Suc (Suc 0) < length cs" by simp
  then have "int (card (chunkRange (cs ! 0) \<inter> chunkRange (cs ! Suc 0))) = min (overlap ?o) (chunkSize ?o)"
    using p by blast
  then show False by simp
qed

text \<open>
  Claim C1, amended.  For every content, and all options with \<open>overlap < chunkSize\<close>,
  \<open>createChunks\<close> for \<open>UNSTRUCTURED\<close> returns chunks whose ranges
  \<open>[offset, offset + text.length)\<close> have the union \<open>[0, L)\<close>, each chunk's text being
  the content at its range, and every two consecutive chunks, the last pair included,
  overlap by exactly \<open>max 0 overlap\<close> characters (which is \<open>min overlap chunkSize\<close>
  whenever the overlap is not negative).
\<close>

theorem C1_unstructured_cover:
  assumes "overlap options < chunkSize options"
  shows "\<exists>cs. createChunks clock js options ''UNSTRUCTURED'' content = Some (Inr cs)
     \<and> (\<Union>c\<in>set cs. chunkRange c) = {0..<int (length content)}
     \<and> (\<forall>c\<in>set cs. c_text c = slice content (c_offset c) (c_offset c + int (length (c_text c))))
     \<and> (\<forall>i. Suc i < length cs \<longrightarrow>
           card (chunkRange (cs ! i) \<inter> chunkRange (cs ! Suc i)) = nat (max 0 (overlap options)))"
  using chunkUnstructured_properties [of clock options content "''UNSTRUCTURED''"]
    overlap_when_smaller [OF assms]
  by (auto simp: createChunks_UNSTRUCTURED)

theorem C1_unstructured_cover_witness:
  "overlap \<lparr>chunkSize = 4, overlap = 1, columnChunkSize = 4\<rparr>
     < chunkSize \<lparr>chunkSize = 4, overlap = 1, columnChunkSize = 4\<rparr>
   \<and> createChunks (\<lambda>i. 0) sampleJson \<lparr>chunkSize = 4, overlap = 1, columnChunkSize = 4\<rparr>
        ''UNSTRUCTURED'' ''abcdefghijk''
       = Some (Inr [sampleChunk 0 ''abcd'' 0, sampleChunk 1 ''defg'' 3, sampleChunk 2 ''ghij'' 6,
            sampleChunk 3 ''jk'' 9])
   \<and> (\<Union>c\<in>set [sampleChunk 0 ''abcd'' 0, sampleChunk 1 ''defg'' 3, sampleChunk 2 ''ghij'' 6,
            sampleChunk 3 ''jk'' 9]. chunkRange c) = {0..<11}
   \<and> card (chunkRange (sampleChunk 0 ''abcd'' 0) \<inter> chunkRange (sampleChunk 1 ''defg'' 3)) = 1
   \<and> card (chunkRange (sampleChunk 2 ''ghij'' 6) \<inter> chunkRange (sampleChunk 3 ''jk'' 9)) = 1"
proof -
  let ?o = "\<lparr>chunkSize = 4, overlap = 1, columnChunkSize = 4\<rparr>"
  let ?cs = "[sampleChunk 0 ''abcd'' 0, sampleChunk 1 ''defg'' 3, sampleChunk 2 ''ghij'' 6,
            sampleChunk 3 ''jk'' 9]"
  have h: "overlap ?o < chunkSize ?o" by simp
  have ev: "createChunks (\<lambda>i. 0) sampleJson ?o ''UNSTRUCTURED'' ''abcdefghijk'' = Some (Inr ?cs)"
    by code_simp
  from C1_unstructured_cover [OF h, of "\<lambda>i. 0" sampleJson "''abcdefghijk''"]
  have u: "(\<Union>c\<in>set ?cs. chunkRange c) = {0..<int (length ''abcdefghijk'')}"
    and p: "\<forall>i. Suc i < length ?cs \<longrightarrow>
           card (chunkRange (?cs ! i) \<inter> chunkRange (?cs ! Suc i)) = nat (max 0 (overlap ?o))"
    unfolding ev by simp_all
  have "card (chunkRange (?cs ! 0) \<inter> chunkRange (?cs ! Suc 0)) = nat (max 0 (overlap ?o))"
    using p by (intro p [rule_format]) simp
  moreover have "card (chunkRange (?cs ! 2) \<inter> chunkRange (?cs ! Suc 2)) = nat (max 0 (overlap ?o))"
    by (intro p [rule_format]) simp
  ultimately show ?thesis using h ev u by (simp add: numeral_3_eq_3 numeral_2_eq_2)
qed

text \<open>
  Claim C6.  For every chunk size and overlap, \<open>overlap \<ge> chunkSize\<close> included,
  unstructured chunking of any content returns, with at least one chunk: the step
  \<open>max 1 (max 1 chunkSize - max 0 overlap)\<close> by which the offsets advance is at least 1,
  and it is exactly 1 when the overlap is not smaller than the chunk size.
\<close>

theorem C6_unstructured_terminates:
  "\<exists>cs. createChunks clock js options ''UNSTRUCTURED'' content = Some (Inr cs)
     \<and> 1 \<le> length cs
     \<and> 1 \<le> effectiveStep options
     \<and> (\<forall>i. Suc i < length cs \<longrightarrow> c_offset (cs ! Suc i) = c_offset (cs ! i) + effectiveStep options)
     \<and> (chunkSize options \<le> overlap options \<longrightarrow> effectiveStep options = 1)"
proof -
  obtain cs where cs: "chunkUnstructured clock options content ''UNSTRUCTURED'' = Some cs"
    and ne: "cs \<noteq> []"
    and st: "\<forall>i. Suc i < length cs \<longrightarrow>
           c_offset (cs ! Suc i) = c_offset (cs ! i) + effectiveStep options
           \<and> card (chunkRange (cs ! i) \<inter> chunkRange (cs ! Suc i))
               = nat (effectiveSize options - effectiveStep options)"
    using chunkUnstructured_properties [of clock options content "''UNSTRUCTURED''"] by blast
  have "1 \<le> length cs" using ne by (cases cs) simp_all
  moreover have "chunkSize options \<le> overlap options \<longrightarrow> effectiveStep options = 1"
    by (auto simp: effectiveStep_def max_def)
  ultimately show ?thesis using cs st clamp_facts(1) [of options]
    by (simp add: createChunks_UNSTRUCTURED)
qed

theorem C6_unstructured_terminates_witness:
  "chunkSize \<lparr>chunkSize = 2, overlap = 5, columnChunkSize = 4\<rparr>
     \<le> overlap \<lparr>chunkSize = 2, overlap = 5, columnChunkSize = 4\<rparr>
   \<and> createChunks (\<lambda>i. 0) sampleJson \<lparr>chunkSize = 2, overlap = 5, columnChunkSize = 4\<rparr>
        ''UNSTRUCTURED'' ''abc''
       = Some (Inr [sampleChunk 0 ''ab'' 0, sampleChunk 1 ''bc'' 1])
   \<and> effectiveStep \<lparr>chunkSize = 2, overlap = 5, columnChunkSize = 4\<rparr> = 1"
proof -
  let ?o = "\<lparr>chunkSize = 2, overlap = 5, columnChunkSize = 4\<rparr>"
  have ev: "createChunks (\<lambda>i. 0) sampleJson ?o ''UNSTRUCTURED'' ''abc''
      = Some (Inr [sampleChunk 0 ''ab'' 0, sampleChunk 1 ''bc'' 1])"
    by code_simp
  show ?thesis
    using C6_unstructured_terminates [of "\<lambda>i. 0" sampleJson ?o "''abc''"] ev by simp
qed

section \<open>The pipeline\<close>

lemma columnLoop_returns:
  assumes "1 \<le> ccs"
  shows "\<exists>cs. columnLoop clock analysisType header parsedRows ccs i chunks = Some cs"
proof (induction "nat (int (length header) - i)" arbitrary: i chunks rule: less_induct)
  case less
  show ?case
  proof (cases "i < int (length header)")
    case True
    then have "nat (int (length header) - (i + ccs)) < nat (int (length header) - i)"
      using assms by simp
    from less [OF this] show ?thesis
      using True by (subst columnLoop.simps) (simp add: Let_def)
  next
    case False
    then show ?thesis by (subst columnLoop.simps) simp
  qed
qed

lemma chunkUnstructured_returns:
  "\<exists>cs. chunkUnstructured clock options str analysisType = Some cs"
  using chunkUnstructured_properties [of clock options str analysisType] by blast

lemma chunkByColumn_returns:
  "1 \<le> columnChunkSize options \<Longrightarrow> \<exists>cs. chunkByColumn clock options csv analysisType = Some cs"
  using chunkUnstructured_returns columnLoop_returns
  by (simp add: chunkByColumn_def Let_def)

lemma chunkJson_returns:
  "\<exists>cs. chunkJson clock js options jsonStr analysisType = Some cs"
  using chunkUnstructured_returns by (simp add: chunkJson_def split: option.splits)

lemma createChunks_returns:
  assumes "1 \<le> columnChunkSize options"
  shows "\<exists>r. createChunks clock js options analysisType content = Some r"
    and "recognized analysisType \<Longrightarrow>
         \<exists>cs. createChunks clock js options analysisType content = Some (Inr cs)"
proof -
  have u: "\<exists>a. chunkUnstructured clock options content t = Some a" for t
    by (rule chunkUnstructured_returns)
  have b: "\<exists>a. chunkByColumn clock options content t = Some a" for t
    by (rule chunkByColumn_returns [OF assms])
  have c: "\<exists>a. chunkJson clock js options content t = Some a" for t
    by (rule chunkJson_returns)
  show "\<exists>r. createChunks clock js options analysisType content = Some r"
    using u b c by (auto simp: createChunks_def)
  show "recognized analysisType \<Longrightarrow>
         \<exists>cs. createChunks clock js options analysisType content = Some (Inr cs)"
    using u b c by (auto simp: createChunks_def recognized_def)
qed

lemma TriggerSchema_parse_cases:
  "TriggerSchema_parse job =
     (if j_content job = [] \<or> \<not> recognized (j_analysisType job) \<or> j_policies job = []
      then Inl ((if j_content job = [] then [ContentTooSmall] else []) @
                (if \<not> recognized (j_analysisType job) then [InvalidAnalysisType] else []) @
                (if j_policies job = [] then [PoliciesTooSmall] else []))
      else Inr job)"
  by (auto simp: TriggerSchema_parse_def recognized_def Let_def)

lemma execute_returns:
  "\<exists>x. execute env newWorkflow job = Some x"
proof (cases "TriggerSchema_parse job")
  case (Inl issues)
  then show ?thesis by (simp add: execute_def)
next
  case (Inr validatedJob)
  have "1 \<le> columnChunkSize (w_chunker newWorkflow)"
    by (simp add: newWorkflow_def defaultChunkingOptions_def)
  then obtain r where "createChunks (e_clock env) (e_json env) (w_chunker newWorkflow)
      (j_analysisType validatedJob) (j_content validatedJob) = Some r"
    using createChunks_returns(1) by blast
  then show ?thesis
    by (simp add: execute_def Inr Let_def split: sum.splits prod.splits)
qed









lemma createChunks_one_char:
  "createChunks clock js defaultChunkingOptions ''UNSTRUCTURED'' ''x''
     = Some (Inr [\<lparr>c_id = generateChunkId clock 0, c_text = ''x'', c_offset = 0,
          c_analysisType = ''UNSTRUCTURED''\<rparr>])"
  by (simp add: createChunks_def chunkUnstructured_def defaultChunkingOptions_def Let_def
      chunkLoop.simps [of _ _ "''x''"] slice_def)

lemma chunkTask_calls:
  "\<exists>rest. k_calls (chunkTask env w job index chunk) = CallIdentify index # rest"
  by (simp add: chunkTask_def split: sum.splits prod.splits)

lemma runTasks_calls:
  "\<exists>rest. d_calls (runTasks env w job index (chunk # chunks)) = CallIdentify index # rest"
  using chunkTask_calls [of env w job index chunk]
  by (auto simp: Let_def split: sum.splits prod.splits)

lemma execute_calls:
  assumes "TriggerSchema_parse job = Inr job"
    and "createChunks (e_clock env) (e_json env) (w_chunker w) (j_analysisType job) (j_content job)
           = Some (Inr (chunk # chunks))"
    and "execute env w job = Some x"
  shows "\<exists>rest. x_calls x = CallCreateChunks # CallIdentify 0 # rest"
  using assms(3) runTasks_calls [of env w job 0 chunk chunks]
  by (auto simp: execute_def assms(1) assms(2) Let_def split: sum.splits prod.splits)

text \<open>
  Claim C3 on the code.  \<open>execute\<close> fails before any call to a tool exactly when the
  content is empty, the policy list is empty, or the analysis type is none of the four.
  A policy whose \<open>id\<close> and \<open>name\<close> are empty does not make the job invalid: the schema
  accepts it, and \<open>execute\<close> goes on to chunk the content and to call the identifier,
  where the checks of the route \<open>/api/analyze\<close> refuse the same body.
\<close>

theorem C3_validation_gate:
  "(\<exists>x. execute env w job = Some x \<and> x_calls x = [] \<and> x_before x = [] \<and> x_after x = [] \<and> isl (x_outcome x))
     = (j_content job = [] \<or> j_policies job = [] \<or> \<not> recognized (j_analysisType job))
   \<and> TriggerSchema_parse (sampleJob ''x'' []) = Inr (sampleJob ''x'' [])
   \<and> (\<exists>x. execute env newWorkflow (sampleJob ''x'' []) = Some x
          \<and> take 2 (x_calls x) = [CallCreateChunks, CallIdentify 0])
   \<and> apiValidation (sampleJob ''x'' []) = Some ''At least one valid policy must be selected''"
proof -
  have a: "(\<exists>x. execute env w job = Some x \<and> x_calls x = [] \<and> x_before x = [] \<and> x_after x = [] \<and> isl (x_outcome x))
     = (j_content job = [] \<or> j_policies job = [] \<or> \<not> recognized (j_analysisType job))"
  proof (cases "j_content job = [] \<or> j_policies job = [] \<or> \<not> recognized (j_analysisType job)")
    case True
    then obtain issues where "TriggerSchema_parse job = Inl issues"
      by (auto simp: TriggerSchema_parse_cases)
    then show ?thesis using True by (simp add: execute_def)
  next
    case False
    then have "TriggerSchema_parse job = Inr job" by (simp add: TriggerSchema_parse_cases)
    then have "x_calls x \<noteq> []" if "execute env w job = Some x" for x
      using that by (auto simp: execute_def Let_def split: option.splits sum.splits prod.splits)
    then show ?thesis using False by auto
  qed
  have b: "TriggerSchema_parse (sampleJob ''x'' []) = Inr (sampleJob ''x'' [])"
    by (simp add: TriggerSchema_parse_cases sampleJob_def recognized_def)
  have c: "createChunks (e_clock env) (e_json env) (w_chunker newWorkflow)
      (j_analysisType (sampleJob ''x'' [])) (j_content (sampleJob ''x'' []))
     = Some (Inr [\<lparr>c_id = generateChunkId (e_clock env) 0, c_text = ''x'', c_offset = 0,
          c_analysisType = ''UNSTRUCTURED''\<rparr>])"
    by (simp add: sampleJob_def newWorkflow_def createChunks_one_char)
  obtain x where x: "execute env newWorkflow (sampleJob ''x'' []) = Some x"
    using execute_returns by blast
  have "take 2 (x_calls x) = [CallCreateChunks, CallIdentify 0]"
    using execute_calls [OF b c x] by (auto simp: numeral_2_eq_2)
  moreover have "apiValidation (sampleJob ''x'' []) = Some ''At least one valid policy must be selected''"
    by (simp add: apiValidation_def sampleJob_def trim_def isWhitespace_def)
  ultimately show ?thesis using a b x by blast
qed

section \<open>Getters hand out copies\<close>

lemma perform_kept:
  assumes "sound w" "alike w w'" "\<not> isMutate op"
  shows "snd (perform env w op) = snd (perform env w' op)"
    and "alike (fst (perform env w op)) (fst (perform env w' op))"
    and "sound (fst (perform env w op))"
  using assms
  by (cases op; auto simp: sound_def alike_def toolRefs_def isMutate_def getter_def alloc_def
      split: option.splits configObject.splits)+

lemma perform_mutate:
  assumes "sound w" "alike w w'"
  shows "snd (perform env w (Mutate i obj)) = []"
    and "alike (fst (perform env w (Mutate i obj))) w'"
    and "sound (fst (perform env w (Mutate i obj)))"
  using assms
  by (auto simp: sound_def alike_def toolRefs_def)

lemma performAll_alike:
  "sound w \<Longrightarrow> alike w w' \<Longrightarrow> performAll env w ops = performAll env w' (filter (\<lambda>op. \<not> isMutate op) ops)"
proof (induction ops arbitrary: w w')
  case Nil
  show ?case by simp
next
  case (Cons op ops)
  show ?case
  proof (cases "isMutate op")
    case True
    then obtain i obj where op: "op = Mutate i obj" by (cases op) (simp_all add: isMutate_def)
    have "performAll env (fst (perform env w op)) ops = performAll env w' (filter (\<lambda>op. \<not> isMutate op) ops)"
      unfolding op using perform_mutate [OF Cons.prems] by (intro Cons.IH)
    then show ?thesis using True perform_mutate(1) [OF Cons.prems, of env i obj]
      by (simp add: op split_beta)
  next
    case False
    have "performAll env (fst (perform env w op)) ops
        = performAll env (fst (perform env w' op)) (filter (\<lambda>op. \<not> isMutate op) ops)"
      using perform_kept [OF Cons.prems False] by (intro Cons.IH)
    then show ?thesis using False perform_kept(1) [OF Cons.prems False, of env]
      by (simp add: split_beta)
  qed
qed

lemma newWorld_sound: "sound (newWorld pc pv pd)"
  by (simp add: newWorld_def alloc_def sound_def toolRefs_def)

lemma alike_refl: "alike w w"
  by (simp add: alike_def)

text \<open>
  Claim C10.  For every sequence of operations on freshly constructed tools, what the
  caller observes (every object a getter returns and every result of chunking,
  validation and deduplication) is what it observes when the writes to the objects
  the getters returned are left out: such writes change neither the later behaviour
  of a tool nor what a later call of a getter returns.
\<close>

theorem C10_getters_return_copies:
  "performAll env (newWorld pc pv pd) ops = performAll env (newWorld pc pv pd) (filter (\<lambda>op. \<not> isMutate op) ops)"
  by (rule performAll_alike [OF newWorld_sound alike_refl])

theorem C10_getters_return_copies_witness:
  "performAll sampleEnv noOverrides sampleOps =
     [Got (ChunkingOptionsObj defaultChunkingOptions), Got (ChunkingOptionsObj defaultChunkingOptions),
      Got (ValidationConfigObj defaultValidationConfig), Got (ValidationConfigObj defaultValidationConfig),
      Validated [textEntity ''a'' 8]]"
proof -
  have f: "filter (\<lambda>op. \<not> isMutate op) sampleOps =
      [GetOptions, GetOptions, ValidatorGetConfig, ValidatorGetConfig,
       ValidateEntities [textEntity ''a'' 8]]"
    by (simp add: sampleOps_def isMutate_def)
  have "performAll sampleEnv noOverrides [GetOptions, GetOptions, ValidatorGetConfig, ValidatorGetConfig,
       ValidateEntities [textEntity ''a'' 8]] =
     [Got (ChunkingOptionsObj defaultChunkingOptions), Got (ChunkingOptionsObj defaultChunkingOptions),
      Got (ValidationConfigObj defaultValidationConfig), Got (ValidationConfigObj defaultValidationConfig),
      Validated [textEntity ''a'' 8]]"
    by code_simp
  then show ?thesis
    using C10_getters_return_copies [of sampleEnv
        "\<lparr>pc_chunkSize = None, pc_overlap = None, pc_columnChunkSize = None\<rparr>"
        "\<lparr>pv_minimumConfidence = None, pv_enableStrictMode = None\<rparr>" "\<lparr>pd_caseSensitive = None\<rparr>"
        sampleOps]
    unfolding f noOverrides_def by simp
qed

end
